theory Spec2Isabelle
  imports Complex_Main "HOL-Library.Word" "HOL-Library.Multiset"
begin

section \<open>Data model\<close>

text \<open>
  Go's \<^verbatim>\<open>int\<close> on a 64-bit target: addition wraps, comparison is signed
  (\<open>\<le>s\<close>, \<open><s\<close>). Line numbers, execution counts and the keys and values of
  \<^verbatim>\<open>map[int]int\<close> all have this type.
\<close>

type_synonym gint = "64 word"

definition MaxInt :: gint where
  "MaxInt = 0x7FFFFFFFFFFFFFFF"

text \<open>Error values; \<open>EOF\<close> is \<^verbatim>\<open>io.EOF\<close>, every other error is opaque.\<close>

datatype error = EOF | Failure string

text \<open>
  \<^verbatim>\<open>cover.ProfileBlock\<close> and \<^verbatim>\<open>cover.Profile\<close> (golang.org/x/tools/cover), with
  the fields the program reads.
\<close>

record ProfileBlock =
  StartLine :: gint
  EndLine :: gint
  Count :: gint

record Profile =
  FileName :: string
  Blocks :: "ProfileBlock list"

text \<open>
  \<^verbatim>\<open>type result struct\<close>. The map \<^verbatim>\<open>Results map[string]*result\<close> of
  \<^verbatim>\<open>type context struct\<close> holds one freshly allocated \<^verbatim>\<open>*result\<close> per key (the only
  allocation is in \<^verbatim>\<open>ingestCoverageFile\<close>, stored under the key it was made for), so
  no two keys alias and the map is modelled by value.
\<close>

record result =
  filename :: string
  lines :: gint
  counts :: "gint \<rightharpoonup> gint"
  Hits :: "gint list"
  Misses :: "gint list"
  Ignored :: "gint list"

record cov_context =
  Now :: int
  Results :: "string \<rightharpoonup> result"

text \<open>
  An open file as \<^verbatim>\<open>lineCounter\<close> sees it: a finite run of \<^verbatim>\<open>Read\<close> calls, each
  returning some bytes, the last one returning an error (\<open>EOF\<close> or a failure).
\<close>

datatype reader = Final "8 word list" error | Chunk "8 word list" reader

text \<open>
  The library calls the program makes: \<^verbatim>\<open>cover.ParseProfiles\<close>,
  \<^verbatim>\<open>filepath.Join\<close>, \<^verbatim>\<open>filepath.Rel\<close> and \<^verbatim>\<open>os.Open\<close>. They are parameters of the
  model. Messages written with \<^verbatim>\<open>log.Print\<close> are not part of the state.
\<close>

record env =
  ParseProfiles :: "string \<Rightarrow> error + Profile list"
  Join :: "string \<Rightarrow> string \<Rightarrow> string"
  Rel :: "string \<Rightarrow> string \<Rightarrow> error + string"
  Open :: "string \<Rightarrow> error + reader"

section \<open>Ingestion\<close>

text \<open>
  \<^verbatim>\<open>for ln := pb.StartLine; ln <= pb.EndLine; ln++ { r.counts[ln] += pb.Count }\<close>.
  A missing key reads as 0. If \<^verbatim>\<open>EndLine\<close> is the largest \<^verbatim>\<open>int\<close>, \<^verbatim>\<open>ln++\<close> wraps
  and the loop never exits: the result is then \<open>None\<close>.
\<close>

partial_function (option) addLines ::
  "(gint \<rightharpoonup> gint) \<Rightarrow> gint \<Rightarrow> gint \<Rightarrow> gint \<Rightarrow> (gint \<rightharpoonup> gint) option" where
  "addLines cs lnum e c =
     (if lnum \<le>s e
      then addLines (cs(lnum \<mapsto> (case cs lnum of None \<Rightarrow> 0 | Some v \<Rightarrow> v) + c)) (lnum + 1) e c
      else Some cs)"

text \<open>\<^verbatim>\<open>for _, pb := range p.Blocks\<close>\<close>

fun addBlocks :: "(gint \<rightharpoonup> gint) \<Rightarrow> ProfileBlock list \<Rightarrow> (gint \<rightharpoonup> gint) option" where
  "addBlocks cs [] = Some cs"
| "addBlocks cs (pb # pbs) =
     (case addLines cs (StartLine pb) (EndLine pb) (Count pb) of
        None \<Rightarrow> None
      | Some cs' \<Rightarrow> addBlocks cs' pbs)"

text \<open>\<^verbatim>\<open>&result{filename: rn, counts: make(map[int]int)}\<close>\<close>

definition newResult :: "string \<Rightarrow> result" where
  "newResult rn =
     \<lparr>filename = rn, lines = 0, counts = Map.empty, Hits = [], Misses = [], Ignored = []\<rparr>"

text \<open>
  \<^verbatim>\<open>for _, p := range ps\<close> of \<^verbatim>\<open>ingestCoverageFile\<close>: a failing \<^verbatim>\<open>filepath.Rel\<close>
  returns from the function, leaving the remaining profiles of that file unread.
\<close>

fun ingestProfiles ::
  "env \<Rightarrow> string \<Rightarrow> string \<Rightarrow> cov_context \<Rightarrow> Profile list \<Rightarrow> cov_context option" where
  "ingestProfiles w coverageRoot projRoot ctx [] = Some ctx"
| "ingestProfiles w coverageRoot projRoot ctx (p # ps) =
     (let an = Join w coverageRoot (FileName p) in
      case Rel w projRoot an of
        Inl err \<Rightarrow> Some ctx
      | Inr rn \<Rightarrow>
          (let r = (case Results ctx rn of None \<Rightarrow> newResult rn | Some r \<Rightarrow> r) in
           case addBlocks (counts r) (Blocks p) of
             None \<Rightarrow> None
           | Some cs \<Rightarrow>
               ingestProfiles w coverageRoot projRoot
                 (ctx\<lparr>Results := (Results ctx)(rn \<mapsto> r\<lparr>counts := cs\<rparr>)\<rparr>) ps))"

definition ingestCoverageFile ::
  "env \<Rightarrow> cov_context \<Rightarrow> string \<Rightarrow> string \<Rightarrow> string \<Rightarrow> cov_context option" where
  "ingestCoverageFile w ctx coverageRoot projRoot fp =
     (case ParseProfiles w fp of
        Inl err \<Rightarrow> Some ctx
      | Inr ps \<Rightarrow> ingestProfiles w coverageRoot projRoot ctx ps)"

text \<open>\<^verbatim>\<open>for _, fp := range sourceFiles { ingestCoverageFile(&ctx, ...) }\<close>\<close>

fun ingestAll ::
  "env \<Rightarrow> cov_context \<Rightarrow> string \<Rightarrow> string \<Rightarrow> string list \<Rightarrow> cov_context option" where
  "ingestAll w ctx coverageRoot projRoot [] = Some ctx"
| "ingestAll w ctx coverageRoot projRoot (fp # fps) =
     (case ingestCoverageFile w ctx coverageRoot projRoot fp of
        None \<Rightarrow> None
      | Some ctx' \<Rightarrow> ingestAll w ctx' coverageRoot projRoot fps)"

section \<open>Classification\<close>

text \<open>\<^verbatim>\<open>bytes.Count(buf[:c], []byte{'\n'})\<close>\<close>

definition bytesCount :: "8 word list \<Rightarrow> gint" where
  "bytesCount bs = of_nat (length (filter (\<lambda>b. b = 0x0A) bs))"

fun lineCounterLoop :: "reader \<Rightarrow> gint \<Rightarrow> gint \<times> error option" where
  "lineCounterLoop (Chunk bs rd) cnt = lineCounterLoop rd (cnt + bytesCount bs)"
| "lineCounterLoop (Final bs err) cnt =
     (if err = EOF then (cnt + bytesCount bs, None) else (cnt + bytesCount bs, Some err))"

definition lineCounter :: "reader \<Rightarrow> gint \<times> error option" where
  "lineCounter rd = lineCounterLoop rd 0"

text \<open>
  The body of the classification loop: the \<^verbatim>\<open>switch\<close> takes \<^verbatim>\<open>!ok\<close> first, then
  \<^verbatim>\<open>c > 0\<close>, and \<^verbatim>\<open>default\<close> last.
\<close>

definition classifyLine :: "result \<Rightarrow> gint \<Rightarrow> result" where
  "classifyLine r lnum =
     (case counts r lnum of
        None \<Rightarrow> r\<lparr>Ignored := Ignored r @ [lnum]\<rparr>
      | Some c \<Rightarrow>
          if 0 <s c then r\<lparr>Hits := Hits r @ [lnum]\<rparr>
          else r\<lparr>Misses := Misses r @ [lnum]\<rparr>)"

text \<open>\<^verbatim>\<open>for ln := 0; ln < r.lines; ln++ { ... }\<close>, entered at \<open>lnum\<close>.\<close>

function classifyLines :: "result \<Rightarrow> gint \<Rightarrow> result" where
  "classifyLines r lnum =
     (if lnum <s lines r then classifyLines (classifyLine r lnum) (lnum + 1) else r)"
  by pat_completeness auto
termination
proof (relation "measure (\<lambda>(r, lnum). nat (sint (lines r) - sint lnum))")
  show "wf (measure (\<lambda>(r, lnum). nat (sint (lines r) - sint lnum)))" by simp
next
  fix r :: result and lnum :: gint
  assume lt: "lnum <s lines r"
  have "sint (lines r) < 2 ^ 63" using sint_lt [of "lines r"] by simp
  with lt have up: "sint lnum + 1 < 2 ^ 63" by (simp add: word_sless_alt)
  have lo: "- (2 ^ 63) \<le> sint lnum + 1" using sint_ge [of lnum] by simp
  have "sint (lnum + 1) = signed_take_bit 63 (sint lnum + 1)"
    by (simp add: sint_word_ariths)
  also have "\<dots> = sint lnum + 1"
    using lo up by (simp add: signed_take_bit_int_eq_self)
  finally have "sint (lnum + 1) = sint lnum + 1" .
  moreover have "lines (classifyLine r lnum) = lines r"
    by (simp add: classifyLine_def split: option.splits)
  ultimately show "((classifyLine r lnum, lnum + 1), (r, lnum))
      \<in> measure (\<lambda>(r, lnum). nat (sint (lines r) - sint lnum))"
    using lt by (simp add: word_sless_alt)
qed

text \<open>
  \<^verbatim>\<open>buildFileCoverage(ctx, projRoot, f, r)\<close>, called with \<open>r\<close> the pointer stored under
  \<open>f\<close>: either the key is deleted, or the result under \<open>f\<close> gets its line count and
  its three lists.
\<close>

definition buildFileCoverage :: "env \<Rightarrow> cov_context \<Rightarrow> string \<Rightarrow> string \<Rightarrow> result \<Rightarrow> cov_context" where
  "buildFileCoverage w ctx projRoot f r =
     (case Open w (Join w projRoot f) of
        Inl err \<Rightarrow> ctx\<lparr>Results := (Results ctx)(f := None)\<rparr>
      | Inr file \<Rightarrow>
          (case lineCounter file of
             (n, Some err) \<Rightarrow> ctx\<lparr>Results := (Results ctx)(f := None)\<rparr>
           | (n, None) \<Rightarrow>
               ctx\<lparr>Results := (Results ctx)(f \<mapsto> classifyLines (r\<lparr>lines := n\<rparr>) 0)\<rparr>))"

text \<open>
  \<^verbatim>\<open>for f, r := range ctx.Results { buildFileCoverage(&ctx, projRoot, f, r) }\<close>.
  Go leaves the order of a map range unspecified; \<open>ks\<close> is the order the runtime
  picks. A key deleted before it is reached is not visited.
\<close>

fun buildAll :: "env \<Rightarrow> cov_context \<Rightarrow> string \<Rightarrow> string list \<Rightarrow> cov_context" where
  "buildAll w ctx projRoot [] = ctx"
| "buildAll w ctx projRoot (f # ks) =
     (case Results ctx f of
        None \<Rightarrow> buildAll w ctx projRoot ks
      | Some r \<Rightarrow> buildAll w (buildFileCoverage w ctx projRoot f r) projRoot ks)"

text \<open>A range over a map visits every key once, in some order.\<close>

definition rangeOrder :: "('k \<rightharpoonup> 'v) \<Rightarrow> 'k list \<Rightarrow> bool" where
  "rangeOrder m ks \<longleftrightarrow> distinct ks \<and> set ks = dom m"

text \<open>
  \<^verbatim>\<open>collectCoverageContext\<close>; \<open>order\<close> gives the order of the map range and \<open>now\<close>
  is \<^verbatim>\<open>time.Now().Unix()\<close>. \<open>None\<close>: an ingestion loop never exits.
\<close>

definition collectCoverageContext ::
  "env \<Rightarrow> int \<Rightarrow> ((string \<rightharpoonup> result) \<Rightarrow> string list) \<Rightarrow> string \<Rightarrow> string \<Rightarrow> string list
     \<Rightarrow> cov_context option" where
  "collectCoverageContext w now order coverageRoot projRoot sourceFiles =
     (case ingestAll w \<lparr>Now = 0, Results = Map.empty\<rparr> coverageRoot projRoot sourceFiles of
        None \<Rightarrow> None
      | Some ctx \<Rightarrow>
          Some ((buildAll w ctx projRoot (order (Results ctx)))\<lparr>Now := now\<rparr>))"

section \<open>The hitlist\<close>

text \<open>
  A \<^verbatim>\<open>float64\<close> as far as \<^verbatim>\<open>MissFraction\<close> needs it: not-a-number, the two
  infinities, and a finite value given by the rational it stands for (rounding to
  the nearest representable value is not modelled). Division follows IEEE 754:
  \<open>0/0\<close> is not-a-number, \<open>x/0\<close> is an infinity. Every comparison with
  not-a-number is false.
\<close>

datatype float64 = NaN | NegInf | Finite rat | PosInf

definition float64_of :: "nat \<Rightarrow> float64" where
  "float64_of n = Finite (of_nat n)"

fun fdiv :: "float64 \<Rightarrow> float64 \<Rightarrow> float64" where
  "fdiv (Finite a) (Finite b) =
     (if b \<noteq> 0 then Finite (a / b)
      else if a = 0 then NaN else if 0 < a then PosInf else NegInf)"
| "fdiv NaN _ = NaN"
| "fdiv _ NaN = NaN"
| "fdiv (Finite a) _ = Finite 0"
| "fdiv PosInf (Finite b) = (if 0 \<le> b then PosInf else NegInf)"
| "fdiv NegInf (Finite b) = (if 0 \<le> b then NegInf else PosInf)"
| "fdiv _ _ = NaN"

fun fmul :: "float64 \<Rightarrow> float64 \<Rightarrow> float64" where
  "fmul (Finite a) (Finite b) = Finite (a * b)"
| "fmul NaN _ = NaN"
| "fmul _ NaN = NaN"
| "fmul (Finite a) PosInf = (if a = 0 then NaN else if 0 < a then PosInf else NegInf)"
| "fmul (Finite a) NegInf = (if a = 0 then NaN else if 0 < a then NegInf else PosInf)"
| "fmul PosInf (Finite b) = (if b = 0 then NaN else if 0 < b then PosInf else NegInf)"
| "fmul NegInf (Finite b) = (if b = 0 then NaN else if 0 < b then NegInf else PosInf)"
| "fmul PosInf PosInf = PosInf"
| "fmul NegInf NegInf = PosInf"
| "fmul _ _ = NegInf"

fun fless :: "float64 \<Rightarrow> float64 \<Rightarrow> bool" where
  "fless (Finite a) (Finite b) = (a < b)"
| "fless NaN _ = False"
| "fless _ NaN = False"
| "fless NegInf NegInf = False"
| "fless NegInf _ = True"
| "fless PosInf _ = False"
| "fless (Finite a) PosInf = True"
| "fless (Finite a) NegInf = False"

text \<open>\<^verbatim>\<open>len\<close> of a slice, a non-negative \<^verbatim>\<open>int\<close>, as a natural number.\<close>

definition MissCount :: "result \<Rightarrow> nat" where
  "MissCount rz = length (Misses rz)"

definition HitCount :: "result \<Rightarrow> nat" where
  "HitCount rz = length (Hits rz)"

definition MissFraction :: "result \<Rightarrow> float64" where
  "MissFraction rz =
     (let hc = HitCount rz; mc = MissCount rz in fdiv (float64_of mc) (float64_of (hc + mc)))"

text \<open>The \<^verbatim>\<open>Less\<close> methods of \<^verbatim>\<open>resultsByLines\<close> and \<^verbatim>\<open>resultsByPercentage\<close>,
  on the elements compared, and \<^verbatim>\<open>sort.Reverse\<close>.\<close>

definition resultsByLines_Less :: "result \<Rightarrow> result \<Rightarrow> bool" where
  "resultsByLines_Less a b \<longleftrightarrow> MissCount a < MissCount b"

definition resultsByPercentage_Less :: "result \<Rightarrow> result \<Rightarrow> bool" where
  "resultsByPercentage_Less a b \<longleftrightarrow> fless (MissFraction a) (MissFraction b)"

definition Reverse :: "('a \<Rightarrow> 'a \<Rightarrow> bool) \<Rightarrow> 'a \<Rightarrow> 'a \<Rightarrow> bool" where
  "Reverse lessf a b \<longleftrightarrow> lessf b a"

text \<open>
  \<^verbatim>\<open>sort.Sort\<close> belongs to Go's standard library. It is modelled by what its
  documentation promises: it only swaps elements, so the outcome is a rearrangement of
  the input; if \<^verbatim>\<open>Less\<close> is a transitive ordering on the elements, no element of
  the outcome is \<^verbatim>\<open>Less\<close> than an earlier one; the sort is not guaranteed to be
  stable. \<open>Sort lessf xs ys\<close>: \<open>ys\<close> is a possible outcome of sorting \<open>xs\<close>.
\<close>

definition transitive_ordering :: "('a \<Rightarrow> 'a \<Rightarrow> bool) \<Rightarrow> 'a list \<Rightarrow> bool" where
  "transitive_ordering lessf xs \<longleftrightarrow>
     (\<forall>a\<in>set xs. \<not> lessf a a) \<and>
     (\<forall>a\<in>set xs. \<forall>b\<in>set xs. \<forall>c\<in>set xs.
        (lessf a b \<and> lessf b c \<longrightarrow> lessf a c) \<and>
        (\<not> lessf a b \<and> \<not> lessf b c \<longrightarrow> \<not> lessf a c))"

definition Sort :: "('a \<Rightarrow> 'a \<Rightarrow> bool) \<Rightarrow> 'a list \<Rightarrow> 'a list \<Rightarrow> bool" where
  "Sort lessf xs ys \<longleftrightarrow>
     mset ys = mset xs \<and>
     (transitive_ordering lessf xs \<longrightarrow> sorted_wrt (\<lambda>a b. \<not> lessf b a) ys)"

text \<open>\<^verbatim>\<open>for _, v := range ctx.Results { rs = append(rs, v) }\<close>, the range visiting the
  keys in the order \<open>ks\<close>.\<close>

definition rangeValues :: "('k \<rightharpoonup> 'v) \<Rightarrow> 'k list \<Rightarrow> 'v list" where
  "rangeValues m ks = List.map_filter m ks"

text \<open>A run-time panic of the Go program.\<close>

datatype panic = IndexOutOfRange

text \<open>
  \<^verbatim>\<open>for i := range rs { rps = append(rps, [2]*result{rs[i], ps[i]}) }\<close>: the two
  slices are walked by the same index, and \<^verbatim>\<open>ps[i]\<close> past the end of \<open>ps\<close> panics.
\<close>

fun pairResults :: "result list \<Rightarrow> result list \<Rightarrow> panic + (result \<times> result) list" where
  "pairResults [] ps = Inr []"
| "pairResults (r # rs) [] = Inl IndexOutOfRange"
| "pairResults (r # rs) (p # ps) =
     (case pairResults rs ps of Inl e \<Rightarrow> Inl e | Inr rps \<Rightarrow> Inr ((r, p) # rps))"

text \<open>One line of the table: file, missed lines, file, percent missed.\<close>

type_synonym row = "string \<times> nat \<times> string \<times> float64"

definition hitlistRow :: "result \<times> result \<Rightarrow> row" where
  "hitlistRow rp =
     (filename (fst rp), MissCount (fst rp), filename (snd rp),
      fmul (MissFraction (snd rp)) (Finite 100))"

text \<open>
  \<^verbatim>\<open>for i := 0; i < limit; i++ { fmt.Fprintf(tabs, ..., rps[i][0]..., rps[i][1]...) }\<close>.
  The rows are buffered in the tabwriter until \<^verbatim>\<open>tabs.Flush()\<close> after the loop, so
  a panic inside the loop leaves nothing written. \<open>i\<close> stays below \<open>limit\<close> and
  cannot wrap.
\<close>

function printRows :: "(result \<times> result) list \<Rightarrow> int \<Rightarrow> int \<Rightarrow> panic + row list" where
  "printRows rps i limit =
     (if i < limit
      then (if 0 \<le> i \<and> nat i < length rps
            then (case printRows rps (i + 1) limit of
                    Inl e \<Rightarrow> Inl e
                  | Inr rows \<Rightarrow> Inr (hitlistRow (rps ! nat i) # rows))
            else Inl IndexOutOfRange)
      else Inr [])"
  by pat_completeness auto
termination
  by (relation "measure (\<lambda>(rps, i, limit). nat (limit - i))") auto

text \<open>
  \<^verbatim>\<open>printHitlist\<close> after its two sorts: \<open>rs\<close> and \<open>ps\<close> are the sorted slices,
  \<open>limit\<close> is \<^verbatim>\<open>int(opts.limit)\<close>, and 0 stands for no limit.
\<close>

definition hitlistRows :: "result list \<Rightarrow> result list \<Rightarrow> int \<Rightarrow> panic + row list" where
  "hitlistRows rs ps limit =
     (case pairResults rs ps of
        Inl e \<Rightarrow> Inl e
      | Inr rps \<Rightarrow>
          (let limit' = (if limit = 0 then int (length rps) else limit)
           in printRows rps 0 limit'))"

text \<open>
  \<^verbatim>\<open>printHitlist(ctx, limit)\<close>: the two ranges visit the keys in the orders \<open>ks1\<close>
  and \<open>ks2\<close>, the two sorts come out as \<open>rs\<close> and \<open>ps\<close>, and \<open>out\<close> is what
  is printed.
\<close>

definition printHitlist ::
  "cov_context \<Rightarrow> int \<Rightarrow> string list \<Rightarrow> string list \<Rightarrow> result list \<Rightarrow> result list
     \<Rightarrow> panic + row list \<Rightarrow> bool" where
  "printHitlist ctx limit ks1 ks2 rs ps out \<longleftrightarrow>
     rangeOrder (Results ctx) ks1 \<and>
     Sort (Reverse resultsByLines_Less) (rangeValues (Results ctx) ks1) rs \<and>
     rangeOrder (Results ctx) ks2 \<and>
     Sort (Reverse resultsByPercentage_Less) (rangeValues (Results ctx) ks2) ps \<and>
     out = hitlistRows rs ps limit"

section \<open>Closed forms used in the proofs\<close>

definition oplus :: "gint option \<Rightarrow> gint option \<Rightarrow> gint option" where
  "oplus a b = (case a of None \<Rightarrow> b | Some x \<Rightarrow> (case b of None \<Rightarrow> Some x | Some y \<Rightarrow> Some (x + y)))"

definition blockDelta :: "ProfileBlock \<Rightarrow> gint \<Rightarrow> gint option" where
  "blockDelta pb l = (if StartLine pb \<le>s l \<and> l \<le>s EndLine pb then Some (Count pb) else None)"

definition addRange :: "(gint \<rightharpoonup> gint) \<Rightarrow> gint \<Rightarrow> gint \<Rightarrow> gint \<Rightarrow> (gint \<rightharpoonup> gint)" where
  "addRange cs s e c =
     (\<lambda>l. if s \<le>s l \<and> l \<le>s e then Some ((case cs l of None \<Rightarrow> 0 | Some v \<Rightarrow> v) + c) else cs l)"

definition blocksDelta :: "ProfileBlock list \<Rightarrow> gint \<Rightarrow> gint option" where
  "blocksDelta pbs l = foldr (\<lambda>pb acc. oplus (blockDelta pb l) acc) pbs None"

definition blocksDiverge :: "ProfileBlock list \<Rightarrow> bool" where
  "blocksDiverge pbs \<longleftrightarrow> (\<exists>pb\<in>set pbs. EndLine pb = MaxInt)"

type_synonym delta = "string \<Rightarrow> (gint \<Rightarrow> gint option) option"

definition dplus :: "delta \<Rightarrow> delta \<Rightarrow> delta" where
  "dplus D E =
     (\<lambda>f. case D f of None \<Rightarrow> E f
          | Some a \<Rightarrow> (case E f of None \<Rightarrow> Some a | Some b \<Rightarrow> Some (\<lambda>l. oplus (a l) (b l))))"

definition applyDelta :: "delta \<Rightarrow> (string \<rightharpoonup> result) \<Rightarrow> (string \<rightharpoonup> result)" where
  "applyDelta D m =
     (\<lambda>f. case D f of None \<Rightarrow> m f
          | Some d \<Rightarrow>
              Some (let r = (case m f of None \<Rightarrow> newResult f | Some r \<Rightarrow> r)
                    in r\<lparr>counts := (\<lambda>l. oplus (counts r l) (d l))\<rparr>))"

fun profilesDelta :: "env \<Rightarrow> string \<Rightarrow> string \<Rightarrow> Profile list \<Rightarrow> delta" where
  "profilesDelta w coverageRoot projRoot [] = Map.empty"
| "profilesDelta w coverageRoot projRoot (p # ps) =
     (case Rel w projRoot (Join w coverageRoot (FileName p)) of
        Inl err \<Rightarrow> Map.empty
      | Inr rn \<Rightarrow> dplus [rn \<mapsto> blocksDelta (Blocks p)] (profilesDelta w coverageRoot projRoot ps))"

fun profilesDiverge :: "env \<Rightarrow> string \<Rightarrow> string \<Rightarrow> Profile list \<Rightarrow> bool" where
  "profilesDiverge w coverageRoot projRoot [] = False"
| "profilesDiverge w coverageRoot projRoot (p # ps) =
     (case Rel w projRoot (Join w coverageRoot (FileName p)) of
        Inl err \<Rightarrow> False
      | Inr rn \<Rightarrow> blocksDiverge (Blocks p) \<or> profilesDiverge w coverageRoot projRoot ps)"

definition fileDelta :: "env \<Rightarrow> string \<Rightarrow> string \<Rightarrow> string \<Rightarrow> delta" where
  "fileDelta w coverageRoot projRoot fp =
     (case ParseProfiles w fp of
        Inl err \<Rightarrow> Map.empty
      | Inr ps \<Rightarrow> profilesDelta w coverageRoot projRoot ps)"

definition fileDiverges :: "env \<Rightarrow> string \<Rightarrow> string \<Rightarrow> string \<Rightarrow> bool" where
  "fileDiverges w coverageRoot projRoot fp =
     (case ParseProfiles w fp of
        Inl err \<Rightarrow> False
      | Inr ps \<Rightarrow> profilesDiverge w coverageRoot projRoot ps)"

definition dsum :: "delta list \<Rightarrow> delta" where
  "dsum ds = foldr dplus ds Map.empty"

definition lineIndices :: "gint \<Rightarrow> gint \<Rightarrow> gint list" where
  "lineIndices a b = map word_of_int [sint a .. sint b - 1]"

definition isHit :: "result \<Rightarrow> gint \<Rightarrow> bool" where
  "isHit r i = (case counts r i of None \<Rightarrow> False | Some c \<Rightarrow> 0 <s c)"

definition isMiss :: "result \<Rightarrow> gint \<Rightarrow> bool" where
  "isMiss r i = (case counts r i of None \<Rightarrow> False | Some c \<Rightarrow> \<not> 0 <s c)"

definition isIgnored :: "result \<Rightarrow> gint \<Rightarrow> bool" where
  "isIgnored r i = (counts r i = None)"

definition classifyOne :: "env \<Rightarrow> string \<Rightarrow> string \<Rightarrow> result \<Rightarrow> result option" where
  "classifyOne w projRoot f r =
     (case Open w (Join w projRoot f) of
        Inl err \<Rightarrow> None
      | Inr file \<Rightarrow>
          (case lineCounter file of
             (n, Some err) \<Rightarrow> None
           | (n, None) \<Rightarrow> Some (classifyLines (r\<lparr>lines := n\<rparr>) 0)))"

definition classified :: "result \<Rightarrow> gint \<Rightarrow> result" where
  "classified r n =
     r\<lparr>lines := n,
       Hits := Hits r @ filter (isHit r) (lineIndices 0 n),
       Misses := Misses r @ filter (isMiss r) (lineIndices 0 n),
       Ignored := Ignored r @ filter (isIgnored r) (lineIndices 0 n)\<rparr>"

definition tally :: "result \<Rightarrow> bool" where
  "tally r \<longleftrightarrow> Hits r = [] \<and> Misses r = [] \<and> Ignored r = []"

definition keyed :: "(string \<rightharpoonup> result) \<Rightarrow> bool" where
  "keyed m \<longleftrightarrow> (\<forall>rn r. m rn = Some r \<longrightarrow> filename r = rn)"

definition tallies :: "(string \<rightharpoonup> result) \<Rightarrow> bool" where
  "tallies m \<longleftrightarrow> (\<forall>rn r. m rn = Some r \<longrightarrow> tally r)"

section \<open>A small run\<close>

text \<open>
  One profile file \<^verbatim>\<open>c.out\<close> covering \<^verbatim>\<open>a.go\<close> (four lines on disk, and a
  block that runs past them) and
  \<^verbatim>\<open>gone.go\<close> (not on disk), and one profile file \<^verbatim>\<open>e.out\<close> covering the empty
  file \<^verbatim>\<open>empty.go\<close>.
\<close>

definition demo_env :: env where
  "demo_env =
     \<lparr>ParseProfiles = (\<lambda>fp.
        if fp = ''c.out'' then
          Inr [\<lparr>FileName = ''a.go'',
                Blocks = [\<lparr>StartLine = 1, EndLine = 2, Count = 3\<rparr>,
                          \<lparr>StartLine = 3, EndLine = 3, Count = 0\<rparr>,
                          \<lparr>StartLine = 4, EndLine = 5, Count = 2\<rparr>]\<rparr>,
               \<lparr>FileName = ''gone.go'',
                Blocks = [\<lparr>StartLine = 1, EndLine = 1, Count = 1\<rparr>]\<rparr>]
        else if fp = ''e.out'' then
          Inr [\<lparr>FileName = ''empty.go'',
                Blocks = [\<lparr>StartLine = 1, EndLine = 1, Count = 1\<rparr>]\<rparr>]
        else Inl (Failure ''open'')),
      Join = (\<lambda>dir name. if dir = [] then name else dir @ ''/'' @ name),
      Rel = (\<lambda>base target. Inr target),
      Open = (\<lambda>path.
        if path = ''a.go'' then Inr (Chunk [0x61, 0x0A, 0x62, 0x0A] (Final [0x0A, 0x0A] EOF))
        else if path = ''empty.go'' then Inr (Final [] EOF)
        else Inl (Failure ''open''))\<rparr>"

definition demo_tally :: result where
  "demo_tally = \<lparr>filename = ''a.go'', lines = 0,
                  counts = [1 \<mapsto> 3, 2 \<mapsto> 3, 3 \<mapsto> 0, 4 \<mapsto> 2, 5 \<mapsto> 2],
                  Hits = [], Misses = [], Ignored = []\<rparr>"

definition demo_ingested :: cov_context where
  "demo_ingested =
     \<lparr>Now = 0,
      Results = [''a.go'' \<mapsto> demo_tally,
                 ''gone.go'' \<mapsto> \<lparr>filename = ''gone.go'', lines = 0, counts = [1 \<mapsto> 1],
                               Hits = [], Misses = [], Ignored = []\<rparr>]\<rparr>"

definition demo_result :: result where
  "demo_result = \<lparr>filename = ''a.go'', lines = 4, counts = [1 \<mapsto> 3, 2 \<mapsto> 3, 3 \<mapsto> 0, 4 \<mapsto> 2, 5 \<mapsto> 2],
                   Hits = [1, 2], Misses = [3], Ignored = [0]\<rparr>"

definition demo_ctx :: cov_context where
  "demo_ctx = \<lparr>Now = 7, Results = [''a.go'' \<mapsto> demo_result]\<rparr>"

definition profileDelta :: "env \<Rightarrow> string \<Rightarrow> string \<Rightarrow> Profile \<Rightarrow> delta" where
  "profileDelta w coverageRoot projRoot p =
     (case Rel w projRoot (Join w coverageRoot (FileName p)) of
        Inl err \<Rightarrow> Map.empty
      | Inr rn \<Rightarrow> [rn \<mapsto> blocksDelta (Blocks p)])"

definition demo_both :: cov_context where
  "demo_both =
     \<lparr>Now = 0,
      Results = [''a.go'' \<mapsto> demo_tally,
                 ''gone.go'' \<mapsto> \<lparr>filename = ''gone.go'', lines = 0, counts = [1 \<mapsto> 1],
                               Hits = [], Misses = [], Ignored = []\<rparr>,
                 ''empty.go'' \<mapsto> \<lparr>filename = ''empty.go'', lines = 0, counts = [1 \<mapsto> 1],
                               Hits = [], Misses = [], Ignored = []\<rparr>]\<rparr>"

definition demo_empty :: result where
  "demo_empty = \<lparr>filename = ''empty.go'', lines = 0, counts = [1 \<mapsto> 1],
                  Hits = [], Misses = [], Ignored = []\<rparr>"

definition demo_a1 :: result where
  "demo_a1 = \<lparr>filename = ''a.go'', lines = 1, counts = [0 \<mapsto> 0],
               Hits = [], Misses = [0], Ignored = []\<rparr>"

definition demo_c :: result where
  "demo_c = \<lparr>filename = ''c.go'', lines = 6,
              counts = [0 \<mapsto> 0, 1 \<mapsto> 0, 2 \<mapsto> 1, 3 \<mapsto> 1, 4 \<mapsto> 1, 5 \<mapsto> 1],
              Hits = [2, 3, 4, 5], Misses = [0, 1], Ignored = []\<rparr>"

definition demo_hitlist_ctx :: cov_context where
  "demo_hitlist_ctx = \<lparr>Now = 7, Results = [''a.go'' \<mapsto> demo_a1, ''c.go'' \<mapsto> demo_c]\<rparr>"

definition demo_x :: result where
  "demo_x = \<lparr>filename = ''x.go'', lines = 2, counts = [0 \<mapsto> 0, 1 \<mapsto> 1],
              Hits = [1], Misses = [0], Ignored = []\<rparr>"

definition demo_y :: result where
  "demo_y = \<lparr>filename = ''y.go'', lines = 2, counts = [0 \<mapsto> 0, 1 \<mapsto> 1],
              Hits = [1], Misses = [0], Ignored = []\<rparr>"

definition demo_tie_ctx :: cov_context where
  "demo_tie_ctx = \<lparr>Now = 7, Results = [''x.go'' \<mapsto> demo_x, ''y.go'' \<mapsto> demo_y]\<rparr>"

definition demo_wrap_env :: env where
  "demo_wrap_env =
     demo_env\<lparr>ParseProfiles := (\<lambda>fp.
        Inr [\<lparr>FileName = ''a.go'',
              Blocks = [\<lparr>StartLine = 1, EndLine = 1, Count = MaxInt\<rparr>,
                        \<lparr>StartLine = 1, EndLine = 1, Count = 1\<rparr>]\<rparr>])\<rparr>"

definition demo_wrap_result :: result where
  "demo_wrap_result =
     \<lparr>filename = ''a.go'', lines = 4, counts = [1 \<mapsto> MaxInt + 1],
      Hits = [], Misses = [1], Ignored = [0, 2, 3]\<rparr>"

declare classifyLines.simps [simp del]
declare printRows.simps [simp del]

section \<open>Machine integers\<close>

lemma lines_classifyLine: "lines (classifyLine r lnum) = lines r"
  by (simp add: classifyLine_def split: option.splits)

lemma sint_MaxInt: "sint MaxInt = 2 ^ 63 - 1"
  by (simp add: MaxInt_def)

lemma sle_MaxInt: "x \<le>s MaxInt"
  using sint_lt [of x] by (simp add: word_sle_eq sint_MaxInt)

lemma sint_eq_MaxInt: "sint (x :: gint) = 2 ^ 63 - 1 \<Longrightarrow> x = MaxInt"
  by (metis signed_word_eqI sint_MaxInt)

lemma sint_succ:
  assumes "x \<noteq> MaxInt"
  shows "sint (x + 1) = sint (x :: gint) + 1"
proof -
  have "sint x < 2 ^ 63" using sint_lt [of x] by simp
  moreover have "sint x \<noteq> 2 ^ 63 - 1" using assms sint_eq_MaxInt by blast
  ultimately have up: "sint x + 1 < 2 ^ 63" by simp
  have lo: "- (2 ^ 63) \<le> sint x + 1" using sint_ge [of x] by simp
  have "sint (x + 1) = signed_take_bit 63 (sint x + 1)"
    by (simp add: sint_word_ariths)
  also have "\<dots> = sint x + 1"
    using lo up by (simp add: signed_take_bit_int_eq_self)
  finally show ?thesis .
qed

lemma sless_not_MaxInt: "x <s y \<Longrightarrow> x \<noteq> MaxInt"
  using sle_MaxInt [of y] by (auto simp: word_sle_eq word_sless_alt)

section \<open>Ingestion and classification in closed form\<close>

lemma addLines_diverges_aux: "addLines cs lnum e c = Some y \<Longrightarrow> e \<noteq> MaxInt"
  by (rule addLines.raw_induct[where P = "\<lambda>cs lnum e c y. e \<noteq> MaxInt"])
     (auto split: if_splits simp: sle_MaxInt)

lemma addLines_diverges: "addLines cs lnum MaxInt c = None"
  using addLines_diverges_aux[of cs lnum MaxInt c] by (cases "addLines cs lnum MaxInt c") auto

lemma oplus_None [simp]: "oplus None b = b" "oplus a None = a"
  by (auto simp: oplus_def split: option.splits)

lemma oplus_Some [simp]: "oplus (Some x) (Some y) = Some (x + y)"
  by (simp add: oplus_def)

lemma oplus_commute: "oplus a b = oplus b a"
  by (auto simp: oplus_def split: option.splits)

lemma oplus_assoc: "oplus (oplus a b) c = oplus a (oplus b c)"
  by (auto simp: oplus_def split: option.splits)

lemma addRange_step:
  assumes "s \<le>s e" "e \<noteq> MaxInt"
  shows "addRange (cs(s \<mapsto> (case cs s of None \<Rightarrow> 0 | Some v \<Rightarrow> v) + c)) (s + 1) e c = addRange cs s e c"
proof -
  have ne: "s \<noteq> MaxInt" using assms sle_MaxInt[of e]
    by (metis signed.order_antisym)
  have ss: "sint (s + 1) = sint s + 1" using ne by (rule sint_succ)
  have iff: "s + 1 \<le>s l \<longleftrightarrow> s \<le>s l \<and> l \<noteq> s" for l
  proof -
    have "l \<noteq> s \<longleftrightarrow> sint l \<noteq> sint s" by (auto intro: signed_word_eqI)
    then show ?thesis using ss by (auto simp: word_sle_eq)
  qed
  show ?thesis
    using assms(1) by (auto simp: addRange_def iff fun_eq_iff)
qed

lemma addLines_terminates:
  "e \<noteq> MaxInt \<Longrightarrow> addLines cs s e c = Some (addRange cs s e c)"
proof (induction "nat (sint e + 1 - sint s)" arbitrary: cs s)
  case 0
  then have "\<not> s \<le>s e" by (simp add: word_sle_eq)
  moreover from this have "addRange cs s e c = cs"
    by (auto simp: addRange_def fun_eq_iff)
  ultimately show ?case by (simp add: addLines.simps)
next
  case (Suc n)
  then have le: "s \<le>s e" by (simp add: word_sle_eq)
  have ne: "s \<noteq> MaxInt" using le Suc.prems sle_MaxInt[of e]
    by (metis signed.order_antisym)
  have "n = nat (sint e + 1 - sint (s + 1))"
    using Suc.hyps(2) sint_succ[OF ne] by simp
  from Suc.hyps(1)[OF this Suc.prems]
  show ?case using le by (subst addLines.simps) (simp add: addRange_step[OF le Suc.prems])
qed

lemma addRange_oplus:
  "addRange cs (StartLine pb) (EndLine pb) (Count pb) = (\<lambda>l. oplus (cs l) (blockDelta pb l))"
  by (auto simp: addRange_def blockDelta_def fun_eq_iff oplus_def split: option.splits)

lemma addLines_eq:
  "addLines cs (StartLine pb) (EndLine pb) (Count pb) =
     (if EndLine pb = MaxInt then None else Some (\<lambda>l. oplus (cs l) (blockDelta pb l)))"
  by (simp add: addLines_diverges addLines_terminates addRange_oplus)

lemma addBlocks_eq:
  "addBlocks cs pbs =
     (if blocksDiverge pbs then None else Some (\<lambda>l. oplus (cs l) (blocksDelta pbs l)))"
proof (induction pbs arbitrary: cs)
  case Nil
  show ?case by (simp add: blocksDiverge_def blocksDelta_def)
next
  case (Cons pb pbs)
  show ?case
    by (simp add: addLines_eq Cons.IH) (auto simp: blocksDiverge_def blocksDelta_def oplus_assoc)
qed

lemma dplus_empty [simp]: "dplus Map.empty D = D" "dplus D Map.empty = D"
  by (auto simp: dplus_def fun_eq_iff split: option.splits)

lemma dplus_commute: "dplus D E = dplus E D"
  by (auto simp: dplus_def fun_eq_iff oplus_commute split: option.splits)

lemma dplus_assoc: "dplus (dplus D E) F = dplus D (dplus E F)"
  by (auto simp: dplus_def fun_eq_iff oplus_assoc split: option.splits)

lemma applyDelta_empty [simp]: "applyDelta Map.empty m = m"
  by (simp add: applyDelta_def)

lemma applyDelta_dplus: "applyDelta E (applyDelta D m) = applyDelta (dplus D E) m"
  by (auto simp: applyDelta_def dplus_def fun_eq_iff Let_def oplus_assoc split: option.splits)

lemma applyDelta_single:
  "applyDelta [rn \<mapsto> d] m =
     m(rn \<mapsto> (case m rn of None \<Rightarrow> newResult rn | Some r \<Rightarrow> r)
               \<lparr>counts := (\<lambda>l. oplus (counts (case m rn of None \<Rightarrow> newResult rn | Some r \<Rightarrow> r) l) (d l))\<rparr>)"
  by (auto simp: applyDelta_def fun_eq_iff Let_def)

lemma ingestProfiles_eq:
  "ingestProfiles w coverageRoot projRoot ctx ps =
     (if profilesDiverge w coverageRoot projRoot ps then None
      else Some (ctx\<lparr>Results := applyDelta (profilesDelta w coverageRoot projRoot ps) (Results ctx)\<rparr>))"
proof (induction ps arbitrary: ctx)
  case Nil
  show ?case by simp
next
  case (Cons p ps)
  show ?case
  proof (cases "Rel w projRoot (Join w coverageRoot (FileName p))")
    case (Inl err)
    then show ?thesis by simp
  next
    case (Inr rn)
    then show ?thesis
      by (simp add: addBlocks_eq Cons.IH applyDelta_dplus [symmetric] applyDelta_single Let_def)
  qed
qed

lemma ingestCoverageFile_eq:
  "ingestCoverageFile w ctx coverageRoot projRoot fp =
     (if fileDiverges w coverageRoot projRoot fp then None
      else Some (ctx\<lparr>Results := applyDelta (fileDelta w coverageRoot projRoot fp) (Results ctx)\<rparr>))"
  by (simp add: ingestCoverageFile_def fileDelta_def fileDiverges_def ingestProfiles_eq
      split: sum.splits)

lemma dsum_simps [simp]: "dsum [] = Map.empty" "dsum (d # ds) = dplus d (dsum ds)"
  by (simp_all add: dsum_def)


lemma dsum_mset: "mset xs = mset ys \<Longrightarrow> dsum xs = dsum ys"
proof -
  assume eq: "mset xs = mset ys"
  have comm: "dplus a \<circ> dplus b = dplus b \<circ> dplus a" for a b
    by (rule ext) (simp add: dplus_assoc [symmetric] dplus_commute [of a b])
  have "fold dplus (rev xs) = fold dplus (rev ys)"
    by (rule fold_multiset_equiv) (simp_all add: comm eq)
  then show ?thesis by (simp add: dsum_def foldr_conv_fold)
qed

lemma ingestAll_eq:
  "ingestAll w ctx coverageRoot projRoot fps =
     (if \<exists>fp\<in>set fps. fileDiverges w coverageRoot projRoot fp then None
      else Some (ctx\<lparr>Results :=
                  applyDelta (dsum (map (fileDelta w coverageRoot projRoot) fps)) (Results ctx)\<rparr>))"
proof (induction fps arbitrary: ctx)
  case Nil
  show ?case by simp
next
  case (Cons fp fps)
  show ?case
    by (simp add: ingestCoverageFile_eq Cons.IH applyDelta_dplus)
qed

lemma lineIndices_Nil: "\<not> a <s b \<Longrightarrow> lineIndices a b = []"
  by (simp add: lineIndices_def word_sless_alt)

lemma lineIndices_Cons: "a <s b \<Longrightarrow> lineIndices a b = a # lineIndices (a + 1) b"
proof -
  assume lt: "a <s b"
  then have "sint (a + 1) = sint a + 1" by (intro sint_succ sless_not_MaxInt)
  moreover have "[sint a .. sint b - 1] = sint a # [sint a + 1 .. sint b - 1]"
    using lt by (simp add: word_sless_alt upto_rec1)
  ultimately show ?thesis by (simp add: lineIndices_def)
qed

lemma classifyLine_fields:
  "counts (classifyLine r i) = counts r"
  "filename (classifyLine r i) = filename r"
  "Hits (classifyLine r i) = Hits r @ (if isHit r i then [i] else [])"
  "Misses (classifyLine r i) = Misses r @ (if isMiss r i then [i] else [])"
  "Ignored (classifyLine r i) = Ignored r @ (if isIgnored r i then [i] else [])"
  by (auto simp: classifyLine_def isHit_def isMiss_def isIgnored_def split: option.splits)

lemma isX_classifyLine:
  "isHit (classifyLine r i) = isHit r" "isMiss (classifyLine r i) = isMiss r"
  "isIgnored (classifyLine r i) = isIgnored r"
  by (simp_all add: fun_eq_iff isHit_def isMiss_def isIgnored_def classifyLine_fields)

lemma classifyLines_eq:
  "classifyLines r i =
     r\<lparr>Hits := Hits r @ filter (isHit r) (lineIndices i (lines r)),
       Misses := Misses r @ filter (isMiss r) (lineIndices i (lines r)),
       Ignored := Ignored r @ filter (isIgnored r) (lineIndices i (lines r))\<rparr>"
proof (induction r i rule: classifyLines.induct)
  case (1 r i)
  show ?case
  proof (cases "i <s lines r")
    case True
    have "classifyLines r i = classifyLines (classifyLine r i) (i + 1)"
      using True by (subst classifyLines.simps) simp
    also note "1.IH" [OF True]
    finally show ?thesis
      using True
      by (simp add: lineIndices_Cons lines_classifyLine classifyLine_fields isX_classifyLine)
  next
    case False
    then show ?thesis
      by (subst classifyLines.simps) (simp add: lineIndices_Nil)
  qed
qed

lemma set_lineIndices: "set (lineIndices 0 n) = {i. 0 \<le>s i \<and> i <s n}"
proof -
  have "i \<in> set (lineIndices 0 n) \<longleftrightarrow> 0 \<le>s i \<and> i <s n" for i
  proof
    assume "i \<in> set (lineIndices 0 n)"
    then obtain k where k: "0 \<le> k" "k \<le> sint n - 1" "i = word_of_int k"
      by (auto simp: lineIndices_def)
    have "k < 2 ^ 63" using k(2) sint_lt [of n] by simp
    then have "sint i = k" using k(1,3)
      by (simp add: signed_take_bit_int_eq_self signed_of_int)
    then show "0 \<le>s i \<and> i <s n" using k by (simp add: word_sle_eq word_sless_alt)
  next
    assume "0 \<le>s i \<and> i <s n"
    then have "sint i \<in> set [0 .. sint n - 1]" by (simp add: word_sle_eq word_sless_alt)
    then have "word_of_int (sint i) \<in> set (lineIndices 0 n)"
      unfolding lineIndices_def by (metis imageI set_map sint_0)
    then show "i \<in> set (lineIndices 0 n)" by simp
  qed
  then show ?thesis by auto
qed

lemma length_lineIndices: "length (lineIndices 0 n) = nat (sint n)"
  by (simp add: lineIndices_def)

lemma sint_lineIndices:
  "map sint (lineIndices 0 n) = [0 .. sint n - 1]"
proof -
  have "sint (word_of_int k :: gint) = k" if "k \<in> set [0 .. sint n - 1]" for k
  proof -
    have "k < 2 ^ 63" "0 \<le> k" using that sint_lt [of n] by auto
    then show ?thesis by (simp add: signed_take_bit_int_eq_self signed_of_int)
  qed
  then have "map (\<lambda>k. sint (word_of_int k :: gint)) [0 .. sint n - 1] = map (\<lambda>k. k) [0 .. sint n - 1]"
    by (intro map_cong) auto
  then show ?thesis by (simp add: lineIndices_def comp_def)
qed

lemma sorted_lineIndices: "sorted_wrt (<s) (lineIndices 0 n)"
proof -
  have "sorted_wrt (<) (map sint (lineIndices 0 n))"
    by (simp add: sint_lineIndices sorted_wrt_upto) 
  moreover have "(<s) = (\<lambda>x y :: gint. sint x < sint y)"
    by (intro ext) (simp add: word_sless_alt)
  ultimately show ?thesis by (simp add: sorted_wrt_map)
qed

lemma distinct_lineIndices: "distinct (lineIndices 0 n)"
proof -
  have "distinct (map sint (lineIndices 0 n))" by (simp add: sint_lineIndices)
  then show ?thesis by (simp add: distinct_map)
qed

lemma buildFileCoverage_Results:
  "Results (buildFileCoverage w ctx projRoot f r) = (Results ctx)(f := classifyOne w projRoot f r)"
  by (simp add: buildFileCoverage_def classifyOne_def split: sum.splits prod.splits option.splits)

lemma buildAll_Results:
  "distinct ks \<Longrightarrow>
   Results (buildAll w ctx projRoot ks) g =
     (if g \<in> set ks then Option.bind (Results ctx g) (classifyOne w projRoot g)
      else Results ctx g)"
proof (induction ks arbitrary: ctx)
  case Nil
  show ?case by simp
next
  case (Cons f ks)
  then show ?case
    by (cases "Results ctx f") (auto simp: buildFileCoverage_Results)
qed

lemma buildAll_rangeOrder:
  assumes "rangeOrder (Results ctx) ks"
  shows "Results (buildAll w ctx projRoot ks) g = Option.bind (Results ctx g) (classifyOne w projRoot g)"
proof -
  have "g \<notin> set ks \<Longrightarrow> Results ctx g = None"
    using assms by (auto simp: rangeOrder_def)
  then show ?thesis
    using assms by (auto simp: buildAll_Results rangeOrder_def)
qed

lemma isX_lines:
  "isHit (r\<lparr>lines := n\<rparr>) = isHit r" "isMiss (r\<lparr>lines := n\<rparr>) = isMiss r"
  "isIgnored (r\<lparr>lines := n\<rparr>) = isIgnored r"
  by (simp_all add: fun_eq_iff isHit_def isMiss_def isIgnored_def)

lemma classifyLines_classified: "classifyLines (r\<lparr>lines := n\<rparr>) 0 = classified r n"
  by (simp add: classifyLines_eq classified_def isX_lines)

lemma classifyOne_Some:
  "classifyOne w projRoot f r = Some r' \<Longrightarrow>
     \<exists>file n. Open w (Join w projRoot f) = Inr file \<and> lineCounter file = (n, None) \<and>
              r' = classified r n"
  by (auto simp: classifyOne_def classifyLines_classified split: sum.splits prod.splits option.splits)

lemma applyDelta_keyed: "keyed m \<Longrightarrow> keyed (applyDelta D m)"
  by (auto simp: keyed_def applyDelta_def Let_def newResult_def split: option.splits)

lemma applyDelta_tallies: "tallies m \<Longrightarrow> tallies (applyDelta D m)"
  by (auto simp: tallies_def tally_def applyDelta_def Let_def newResult_def split: option.splits)

lemma ingestAll_keyed:
  "ingestAll w ctx coverageRoot projRoot fps = Some ctx' \<Longrightarrow> keyed (Results ctx) \<Longrightarrow> keyed (Results ctx')"
  by (auto simp: ingestAll_eq applyDelta_keyed split: if_splits)

lemma ingestAll_tallies:
  "ingestAll w ctx coverageRoot projRoot fps = Some ctx' \<Longrightarrow> tallies (Results ctx) \<Longrightarrow> tallies (Results ctx')"
  by (auto simp: ingestAll_eq applyDelta_tallies split: if_splits)

lemma classified_partition:
  assumes "tally r"
  shows "set (Hits (classified r n)) \<inter> set (Misses (classified r n)) = {}"
    and "set (Hits (classified r n)) \<inter> set (Ignored (classified r n)) = {}"
    and "set (Misses (classified r n)) \<inter> set (Ignored (classified r n)) = {}"
    and "set (Hits (classified r n)) \<union> set (Misses (classified r n)) \<union> set (Ignored (classified r n))
          = {i. 0 \<le>s i \<and> i <s n}"
    and "distinct (Hits (classified r n))" "distinct (Misses (classified r n))"
        "distinct (Ignored (classified r n))"
  using assms
  by (auto simp: classified_def tally_def set_lineIndices distinct_lineIndices
        isHit_def isMiss_def isIgnored_def split: option.splits)

lemma length_filter3:
  assumes "\<And>x. x \<in> set xs \<Longrightarrow> (P x \<and> \<not> Q x \<and> \<not> R x) \<or> (\<not> P x \<and> Q x \<and> \<not> R x) \<or> (\<not> P x \<and> \<not> Q x \<and> R x)"
  shows "length (filter P xs) + length (filter Q xs) + length (filter R xs) = length xs"
  using assms by (induction xs) auto

lemma classified_length:
  assumes "tally r"
  shows "length (Hits (classified r n)) + length (Misses (classified r n))
          + length (Ignored (classified r n)) = nat (sint n)"
proof -
  have "length (filter (isHit r) (lineIndices 0 n)) + length (filter (isMiss r) (lineIndices 0 n))
        + length (filter (isIgnored r) (lineIndices 0 n)) = length (lineIndices 0 n)"
    by (rule length_filter3) (auto simp: isHit_def isMiss_def isIgnored_def split: option.splits)
  then show ?thesis using assms by (simp add: classified_def tally_def length_lineIndices)
qed

lemma collectCoverageContext_Results:
  assumes "ingestAll w \<lparr>Now = 0, Results = Map.empty\<rparr> coverageRoot projRoot sourceFiles = Some ingested"
    and "rangeOrder (Results ingested) (order (Results ingested))"
    and "collectCoverageContext w now order coverageRoot projRoot sourceFiles = Some ctx"
  shows "Results ctx f = Option.bind (Results ingested f) (classifyOne w projRoot f)"
proof -
  from assms(1,3) have "ctx = (buildAll w ingested projRoot (order (Results ingested)))\<lparr>Now := now\<rparr>"
    by (simp add: collectCoverageContext_def)
  then show ?thesis by (simp add: buildAll_rangeOrder [OF assms(2)])
qed

lemma lines_classified: "lines (classified r n) = n"
  by (simp add: classified_def)

lemma ingested_tallies:
  assumes "ingestAll w \<lparr>Now = 0, Results = Map.empty\<rparr> coverageRoot projRoot sourceFiles = Some ingested"
  shows "tallies (Results ingested)" "keyed (Results ingested)"
  using ingestAll_tallies [OF assms] ingestAll_keyed [OF assms]
  by (simp_all add: tallies_def keyed_def)

section \<open>The small run, evaluated\<close>

lemma demo_ingestAll:
  "ingestAll demo_env \<lparr>Now = 0, Results = Map.empty\<rparr> [] [] [''c.out''] = Some demo_ingested"
  by (simp add: ingestCoverageFile_def demo_env_def demo_ingested_def demo_tally_def newResult_def
      addLines.simps word_sle_eq Let_def)

lemma demo_rangeOrder: "rangeOrder (Results demo_ingested) [''a.go'', ''gone.go'']"
  by (auto simp: rangeOrder_def demo_ingested_def)

lemma demo_classify: "classifyLines (demo_tally\<lparr>lines := 4\<rparr>) 0 = demo_result"
  by (simp add: classifyLines.simps classifyLine_def word_sless_alt demo_result_def demo_tally_def)

lemma demo_Open:
  "Open demo_env (Join demo_env [] ''a.go'') = Inr (Chunk [0x61, 0x0A, 0x62, 0x0A] (Final [0x0A, 0x0A] EOF))"
  by (simp add: demo_env_def)

lemma demo_lineCounter:
  "lineCounter (Chunk [0x61, 0x0A, 0x62, 0x0A] (Final [0x0A, 0x0A] EOF)) = (4, None)"
  by (simp add: lineCounter_def bytesCount_def)

lemma demo_buildFileCoverage:
  "Results (buildFileCoverage demo_env demo_ingested [] ''a.go'' demo_tally) ''a.go'' = Some demo_result"
  by (simp add: buildFileCoverage_def demo_Open demo_lineCounter demo_classify)

lemma demo_collect:
  "collectCoverageContext demo_env 7 (\<lambda>m. [''a.go'', ''gone.go'']) [] [] [''c.out''] = Some demo_ctx"
  by (simp only: collectCoverageContext_def demo_ingestAll)
     (simp add: demo_ingested_def buildFileCoverage_def demo_env_def lineCounter_def bytesCount_def
        demo_classify demo_ctx_def)

section \<open>Classification partitions the lines of a file\<close>

text \<open>
  C1. Every result that \<^verbatim>\<open>collectCoverageContext\<close> returns went through
  \<^verbatim>\<open>buildFileCoverage\<close> with a source file that was read to its end. Its \<open>Hits\<close>,
  \<open>Misses\<close> and \<open>Ignored\<close> are pairwise disjoint, hold no index twice, together
  hold exactly the indices \<open>0 \<le> i < lines\<close>, and their lengths add up to
  \<open>lines\<close> (a line count is never negative; the model says so by \<open>nat\<close> and
  by the last conjunct).
\<close>

theorem classified_results_partition_lines:
  assumes "ingestAll w \<lparr>Now = 0, Results = Map.empty\<rparr> coverageRoot projRoot sourceFiles = Some ingested"
    and "rangeOrder (Results ingested) (order (Results ingested))"
    and "collectCoverageContext w now order coverageRoot projRoot sourceFiles = Some ctx"
    and "Results ctx f = Some r"
  shows "set (Hits r) \<inter> set (Misses r) = {} \<and>
         set (Hits r) \<inter> set (Ignored r) = {} \<and>
         set (Misses r) \<inter> set (Ignored r) = {} \<and>
         distinct (Hits r) \<and> distinct (Misses r) \<and> distinct (Ignored r) \<and>
         set (Hits r) \<union> set (Misses r) \<union> set (Ignored r) = {i. 0 \<le>s i \<and> i <s lines r} \<and>
         length (Hits r) + length (Misses r) + length (Ignored r) = nat (sint (lines r)) \<and>
         (0 \<le>s lines r \<longrightarrow>
            int (length (Hits r)) + int (length (Misses r)) + int (length (Ignored r)) = sint (lines r))"
proof -
  from assms have "Option.bind (Results ingested f) (classifyOne w projRoot f) = Some r"
    by (simp add: collectCoverageContext_Results)
  then obtain r0 where r0: "Results ingested f = Some r0" "classifyOne w projRoot f r0 = Some r"
    by (cases "Results ingested f") auto
  from r0(1) ingested_tallies(1) [OF assms(1)] have t: "tally r0"
    by (auto simp: tallies_def)
  from classifyOne_Some [OF r0(2)] obtain n where r: "r = classified r0 n" by blast
  have len: "length (Hits (classified r0 n)) + length (Misses (classified r0 n))
      + length (Ignored (classified r0 n)) = nat (sint n)"
    by (rule classified_length [OF t])
  then have "0 \<le>s n \<longrightarrow>
      int (length (Hits (classified r0 n))) + int (length (Misses (classified r0 n)))
        + int (length (Ignored (classified r0 n))) = sint n"
    by (auto simp: word_sle_eq)
  with len classified_partition [OF t, of n] show ?thesis
    unfolding r lines_classified by blast
qed

theorem classified_results_partition_lines_witness:
  "ingestAll demo_env \<lparr>Now = 0, Results = Map.empty\<rparr> [] [] [''c.out''] = Some demo_ingested \<and>
   rangeOrder (Results demo_ingested) [''a.go'', ''gone.go''] \<and>
   collectCoverageContext demo_env 7 (\<lambda>m. [''a.go'', ''gone.go'']) [] [] [''c.out''] = Some demo_ctx \<and>
   Results demo_ctx ''a.go'' = Some demo_result \<and>
   0 \<le>s lines demo_result \<and>
   set (Hits demo_result) \<union> set (Misses demo_result) \<union> set (Ignored demo_result)
     = {i. 0 \<le>s i \<and> i <s lines demo_result} \<and>
   int (length (Hits demo_result)) + int (length (Misses demo_result))
     + int (length (Ignored demo_result)) = sint (lines demo_result)"
proof -
  have h2: "rangeOrder (Results demo_ingested) ((\<lambda>m. [''a.go'', ''gone.go'']) (Results demo_ingested))"
    using demo_rangeOrder by simp
  have h4: "Results demo_ctx ''a.go'' = Some demo_result"
    by (simp add: demo_ctx_def)
  have h5: "0 \<le>s lines demo_result"
    by (simp add: demo_result_def word_sle_eq)
  from classified_results_partition_lines [OF demo_ingestAll h2 demo_collect h4] h5
  show ?thesis
    using demo_ingestAll demo_rangeOrder demo_collect h4 by blast
qed

section \<open>The classification rule\<close>

lemma buildFileCoverage_read:
  assumes "Open w (Join w projRoot f) = Inr file" and "lineCounter file = (n, None)"
  shows "Results (buildFileCoverage w ctx projRoot f r) f = Some (classified r n)"
  using assms by (simp add: buildFileCoverage_def classifyLines_classified)

lemma sorted_wrt_filter': "sorted_wrt P xs \<Longrightarrow> sorted_wrt P (filter Q xs)"
  by (induction xs) auto

lemma classified_members:
  assumes "tally r" and "0 \<le>s i" and "i <s n"
  shows "i \<in> set (Ignored (classified r n)) \<longleftrightarrow> counts r i = None"
    and "i \<in> set (Hits (classified r n)) \<longleftrightarrow> (\<exists>c. counts r i = Some c \<and> 0 <s c)"
    and "i \<in> set (Misses (classified r n)) \<longleftrightarrow> (\<exists>c. counts r i = Some c \<and> \<not> 0 <s c)"
  using assms
  by (auto simp: classified_def tally_def set_lineIndices isHit_def isMiss_def isIgnored_def
      split: option.splits)

lemma classified_sorted:
  assumes "tally r"
  shows "sorted_wrt (<s) (Hits (classified r n))" "sorted_wrt (<s) (Misses (classified r n))"
    "sorted_wrt (<s) (Ignored (classified r n))"
  using assms by (simp_all add: classified_def tally_def sorted_wrt_filter' sorted_lineIndices)

lemma not_spos_nonneg: "0 \<le>s (c :: gint) \<Longrightarrow> \<not> 0 <s c \<longleftrightarrow> c = 0"
  by (auto simp: word_sle_eq word_sless_alt intro: signed_word_eqI)

text \<open>
  C2, as the code has it. When the source file of a tally is read to its end and has
  \<open>n\<close> lines, \<^verbatim>\<open>buildFileCoverage\<close> files every index \<open>0 \<le> i < n\<close> under
  \<open>Ignored\<close> exactly when \<open>i\<close> is no key of \<open>counts\<close>, under \<open>Hits\<close> exactly
  when the stored count is greater than 0, and under \<open>Misses\<close> exactly when a count
  is stored and is not greater than 0; where the stored count is not negative, that is
  exactly when it is 0. Each of the three lists is in ascending order.
\<close>

theorem classification_rule:
  assumes "Open w (Join w projRoot f) = Inr file" and "lineCounter file = (n, None)"
    and "Hits r = []" and "Misses r = []" and "Ignored r = []"
  shows "\<exists>r'. Results (buildFileCoverage w ctx projRoot f r) f = Some r' \<and> lines r' = n \<and>
           (\<forall>i. 0 \<le>s i \<and> i <s n \<longrightarrow>
              (i \<in> set (Ignored r') \<longleftrightarrow> counts r i = None) \<and>
              (i \<in> set (Hits r') \<longleftrightarrow> (\<exists>c. counts r i = Some c \<and> 0 <s c)) \<and>
              (i \<in> set (Misses r') \<longleftrightarrow> (\<exists>c. counts r i = Some c \<and> \<not> 0 <s c)) \<and>
              ((\<forall>c. counts r i = Some c \<longrightarrow> 0 \<le>s c) \<longrightarrow>
                 (i \<in> set (Misses r') \<longleftrightarrow> counts r i = Some 0))) \<and>
           sorted_wrt (<s) (Hits r') \<and> sorted_wrt (<s) (Misses r') \<and>
           sorted_wrt (<s) (Ignored r')"
proof -
  have t: "tally r" using assms(3-5) by (simp add: tally_def)
  have "(i \<in> set (Misses (classified r n)) \<longleftrightarrow> counts r i = Some 0)"
    if "0 \<le>s i" "i <s n" "\<forall>c. counts r i = Some c \<longrightarrow> 0 \<le>s c" for i
    using classified_members(3) [OF t that(1,2)] that(3) not_spos_nonneg by auto
  then show ?thesis
    using buildFileCoverage_read [OF assms(1,2)] classified_members [OF t] classified_sorted [OF t]
    by (auto simp: lines_classified)
qed

lemma sless_0_3: "(0 :: gint) \<le>s 3 \<and> (3 :: gint) <s 4"
  by (simp add: word_sle_eq word_sless_alt)

theorem classification_rule_witness:
  "Open demo_env (Join demo_env [] ''a.go'') = Inr (Chunk [0x61, 0x0A, 0x62, 0x0A] (Final [0x0A, 0x0A] EOF)) \<and>
   lineCounter (Chunk [0x61, 0x0A, 0x62, 0x0A] (Final [0x0A, 0x0A] EOF)) = (4, None) \<and>
   Hits demo_tally = [] \<and> Misses demo_tally = [] \<and> Ignored demo_tally = [] \<and>
   (0 :: gint) \<le>s 3 \<and> (3 :: gint) <s 4 \<and> counts demo_tally 3 = Some 0 \<and>
   (\<exists>r'. Results (buildFileCoverage demo_env demo_ingested [] ''a.go'' demo_tally) ''a.go'' = Some r' \<and>
         lines r' = 4 \<and> 3 \<in> set (Misses r') \<and> sorted_wrt (<s) (Hits r'))"
proof -
  have t: "Hits demo_tally = []" "Misses demo_tally = []" "Ignored demo_tally = []"
    by (simp_all add: demo_tally_def)
  have c: "counts demo_tally 3 = Some 0" by (simp add: demo_tally_def)
  from classification_rule [OF demo_Open demo_lineCounter t, of demo_ingested]
  obtain r' where r': "Results (buildFileCoverage demo_env demo_ingested [] ''a.go'' demo_tally) ''a.go'' = Some r'"
      "lines r' = 4"
      "\<forall>i. 0 \<le>s i \<and> i <s 4 \<longrightarrow>
              (i \<in> set (Ignored r') \<longleftrightarrow> counts demo_tally i = None) \<and>
              (i \<in> set (Hits r') \<longleftrightarrow> (\<exists>c. counts demo_tally i = Some c \<and> 0 <s c)) \<and>
              (i \<in> set (Misses r') \<longleftrightarrow> (\<exists>c. counts demo_tally i = Some c \<and> \<not> 0 <s c)) \<and>
              ((\<forall>c. counts demo_tally i = Some c \<longrightarrow> 0 \<le>s c) \<longrightarrow>
                 (i \<in> set (Misses r') \<longleftrightarrow> counts demo_tally i = Some 0))"
      "sorted_wrt (<s) (Hits r')"
    by blast
  from r'(3) sless_0_3 c have "3 \<in> set (Misses r')" by (auto simp: word_sle_eq)
  with r' demo_Open demo_lineCounter t c sless_0_3 show ?thesis by blast
qed

section \<open>Counts past the last line\<close>

text \<open>
  C10. A count stored at an index at or past the line count of the file (a block that
  runs past the end of the file leaves such counts) does not stop the classification:
  the result is there, the index is in none of \<open>Hits\<close>, \<open>Misses\<close> and
  \<open>Ignored\<close>, and \<open>counts\<close> is what it was.
\<close>

theorem counts_past_last_line_not_classified:
  assumes "Open w (Join w projRoot f) = Inr file" and "lineCounter file = (n, None)"
    and "Hits r = []" and "Misses r = []" and "Ignored r = []"
  shows "\<exists>r'. Results (buildFileCoverage w ctx projRoot f r) f = Some r' \<and>
           lines r' = n \<and> counts r' = counts r \<and>
           (\<forall>i. n \<le>s i \<longrightarrow>
              i \<notin> set (Hits r') \<and> i \<notin> set (Misses r') \<and> i \<notin> set (Ignored r'))"
proof -
  have t: "tally r" using assms(3-5) by (simp add: tally_def)
  have "i \<notin> set (Hits (classified r n)) \<union> set (Misses (classified r n)) \<union> set (Ignored (classified r n))"
    if "n \<le>s i" for i
    using that unfolding classified_partition(4) [OF t] by (auto simp: word_sle_eq word_sless_alt)
  then show ?thesis
    using buildFileCoverage_read [OF assms(1,2)]
    by (auto simp: lines_classified classified_def)
qed

theorem counts_past_last_line_not_classified_witness:
  "Open demo_env (Join demo_env [] ''a.go'') = Inr (Chunk [0x61, 0x0A, 0x62, 0x0A] (Final [0x0A, 0x0A] EOF)) \<and>
   lineCounter (Chunk [0x61, 0x0A, 0x62, 0x0A] (Final [0x0A, 0x0A] EOF)) = (4, None) \<and>
   Hits demo_tally = [] \<and> Misses demo_tally = [] \<and> Ignored demo_tally = [] \<and>
   (4 :: gint) \<le>s 5 \<and> counts demo_tally 5 = Some 2 \<and>
   (\<exists>r'. Results (buildFileCoverage demo_env demo_ingested [] ''a.go'' demo_tally) ''a.go'' = Some r' \<and>
         lines r' = 4 \<and> counts r' = counts demo_tally \<and>
         5 \<notin> set (Hits r') \<and> 5 \<notin> set (Misses r') \<and> 5 \<notin> set (Ignored r'))"
proof -
  have t: "Hits demo_tally = []" "Misses demo_tally = []" "Ignored demo_tally = []"
    by (simp_all add: demo_tally_def)
  have c: "counts demo_tally 5 = Some 2" by (simp add: demo_tally_def)
  have le: "(4 :: gint) \<le>s 5" by (simp add: word_sle_eq)
  from counts_past_last_line_not_classified [OF demo_Open demo_lineCounter t, of demo_ingested] le
  have "\<exists>r'. Results (buildFileCoverage demo_env demo_ingested [] ''a.go'' demo_tally) ''a.go'' = Some r' \<and>
         lines r' = 4 \<and> counts r' = counts demo_tally \<and>
         5 \<notin> set (Hits r') \<and> 5 \<notin> set (Misses r') \<and> 5 \<notin> set (Ignored r')"
    by blast
  with demo_Open demo_lineCounter t c le show ?thesis by blast
qed

section \<open>Ingesting twice\<close>







section \<open>The order of ingestion\<close>

lemma profilesDelta_all_ok:
  assumes "\<forall>p\<in>set ps. \<exists>rn. Rel w projRoot (Join w coverageRoot (FileName p)) = Inr rn"
  shows "profilesDelta w coverageRoot projRoot ps = dsum (map (profileDelta w coverageRoot projRoot) ps)"
    and "profilesDiverge w coverageRoot projRoot ps \<longleftrightarrow> (\<exists>p\<in>set ps. blocksDiverge (Blocks p))"
  using assms by (induction ps) (auto simp: profileDelta_def)

lemma ingestProfiles_mset:
  assumes "mset ps' = mset ps"
    and "\<forall>p\<in>set ps. \<exists>rn. Rel w projRoot (Join w coverageRoot (FileName p)) = Inr rn"
  shows "ingestProfiles w coverageRoot projRoot c0 ps' = ingestProfiles w coverageRoot projRoot c0 ps"
proof -
  have s: "set ps' = set ps" using assms(1) by (rule mset_eq_setD)
  then have ok': "\<forall>p\<in>set ps'. \<exists>rn. Rel w projRoot (Join w coverageRoot (FileName p)) = Inr rn"
    using assms(2) by simp
  have "mset (map (profileDelta w coverageRoot projRoot) ps')
      = mset (map (profileDelta w coverageRoot projRoot) ps)"
    using assms(1) by simp
  then have "dsum (map (profileDelta w coverageRoot projRoot) ps')
      = dsum (map (profileDelta w coverageRoot projRoot) ps)"
    by (rule dsum_mset)
  then show ?thesis
    by (simp add: ingestProfiles_eq profilesDelta_all_ok [OF assms(2)] profilesDelta_all_ok [OF ok'] s)
qed

lemma ingestAll_mset:
  assumes "mset fps' = mset fps"
  shows "ingestAll w c0 coverageRoot projRoot fps' = ingestAll w c0 coverageRoot projRoot fps"
proof -
  have s: "set fps' = set fps" using assms by (rule mset_eq_setD)
  have "mset (map (fileDelta w coverageRoot projRoot) fps')
      = mset (map (fileDelta w coverageRoot projRoot) fps)"
    using assms by simp
  then have "dsum (map (fileDelta w coverageRoot projRoot) fps')
      = dsum (map (fileDelta w coverageRoot projRoot) fps)"
    by (rule dsum_mset)
  then show ?thesis by (simp add: ingestAll_eq s)
qed

lemma Now_buildFileCoverage: "Now (buildFileCoverage w ctx projRoot f r) = Now ctx"
  by (simp add: buildFileCoverage_def split: sum.splits prod.splits option.splits)

lemma more_buildFileCoverage:
  "cov_context.more (buildFileCoverage w ctx projRoot f r) = cov_context.more ctx"
  by (simp add: buildFileCoverage_def split: sum.splits prod.splits option.splits)

lemma Now_buildAll: "Now (buildAll w ctx projRoot ks) = Now ctx"
  by (induction ks arbitrary: ctx) (auto simp: Now_buildFileCoverage split: option.splits)

lemma buildAll_order_irrelevant:
  assumes "rangeOrder (Results ctx) ks" and "rangeOrder (Results ctx) ks'"
  shows "buildAll w ctx projRoot ks' = buildAll w ctx projRoot ks"
proof -
  have "Results (buildAll w ctx projRoot ks') = Results (buildAll w ctx projRoot ks)"
    by (rule ext) (simp add: buildAll_rangeOrder [OF assms(1)] buildAll_rangeOrder [OF assms(2)])
  then show ?thesis
    by (intro cov_context.equality) (simp_all add: Now_buildAll)
qed

text \<open>
  C8. Ingesting the same profile files in another order gives the same result from any
  starting map (the same tallies, or in both orders a loop that never exits), so
  \<^verbatim>\<open>collectCoverageContext\<close> returns the same results, whatever order its map range
  takes. Within one file the profiles can be taken in another order as well, provided
  \<^verbatim>\<open>filepath.Rel\<close> succeeds on each of them.
\<close>

theorem ingestion_order_irrelevant:
  assumes "mset fps' = mset fps"
    and "ingestAll w \<lparr>Now = 0, Results = Map.empty\<rparr> coverageRoot projRoot fps = Some ingested"
    and "rangeOrder (Results ingested) (order (Results ingested))"
    and "rangeOrder (Results ingested) (order' (Results ingested))"
  shows "(\<forall>c0. ingestAll w c0 coverageRoot projRoot fps' = ingestAll w c0 coverageRoot projRoot fps) \<and>
         collectCoverageContext w now order' coverageRoot projRoot fps'
           = Some ((buildAll w ingested projRoot (order (Results ingested)))\<lparr>Now := now\<rparr>) \<and>
         collectCoverageContext w now order coverageRoot projRoot fps
           = Some ((buildAll w ingested projRoot (order (Results ingested)))\<lparr>Now := now\<rparr>) \<and>
         (\<forall>ps ps' c0.
            mset ps' = mset ps \<and>
            (\<forall>p\<in>set ps. \<exists>rn. Rel w projRoot (Join w coverageRoot (FileName p)) = Inr rn) \<longrightarrow>
            ingestProfiles w coverageRoot projRoot c0 ps' = ingestProfiles w coverageRoot projRoot c0 ps)"
proof -
  have a: "\<forall>c0. ingestAll w c0 coverageRoot projRoot fps' = ingestAll w c0 coverageRoot projRoot fps"
    using ingestAll_mset [OF assms(1)] by blast
  have b: "collectCoverageContext w now order coverageRoot projRoot fps
           = Some ((buildAll w ingested projRoot (order (Results ingested)))\<lparr>Now := now\<rparr>)"
    by (simp add: collectCoverageContext_def assms(2))
  have c: "collectCoverageContext w now order' coverageRoot projRoot fps'
           = Some ((buildAll w ingested projRoot (order (Results ingested)))\<lparr>Now := now\<rparr>)"
    by (simp add: collectCoverageContext_def a assms(2) buildAll_order_irrelevant [OF assms(3,4)])
  from a b c ingestProfiles_mset show ?thesis by blast
qed

lemma demo_ingestAll_both:
  "ingestAll demo_env \<lparr>Now = 0, Results = Map.empty\<rparr> [] [] [''c.out'', ''e.out''] = Some demo_both"
  by (simp add: ingestCoverageFile_def demo_env_def demo_both_def demo_tally_def newResult_def
      addLines.simps word_sle_eq Let_def)

lemma demo_rangeOrder_both:
  "rangeOrder (Results demo_both) [''a.go'', ''gone.go'', ''empty.go'']"
  "rangeOrder (Results demo_both) [''empty.go'', ''gone.go'', ''a.go'']"
  by (auto simp: rangeOrder_def demo_both_def)

theorem ingestion_order_irrelevant_witness:
  "mset [''e.out'', ''c.out''] = mset [''c.out'', ''e.out''] \<and>
   ingestAll demo_env \<lparr>Now = 0, Results = Map.empty\<rparr> [] [] [''c.out'', ''e.out''] = Some demo_both \<and>
   rangeOrder (Results demo_both) [''a.go'', ''gone.go'', ''empty.go''] \<and>
   rangeOrder (Results demo_both) [''empty.go'', ''gone.go'', ''a.go''] \<and>
   ingestAll demo_env \<lparr>Now = 0, Results = Map.empty\<rparr> [] [] [''e.out'', ''c.out''] = Some demo_both \<and>
   collectCoverageContext demo_env 7 (\<lambda>m. [''empty.go'', ''gone.go'', ''a.go'']) [] [] [''e.out'', ''c.out'']
     = collectCoverageContext demo_env 7 (\<lambda>m. [''a.go'', ''gone.go'', ''empty.go'']) [] [] [''c.out'', ''e.out''] \<and>
   collectCoverageContext demo_env 7 (\<lambda>m. [''a.go'', ''gone.go'', ''empty.go'']) [] [] [''c.out'', ''e.out''] \<noteq> None \<and>
   Rel demo_env [] (Join demo_env [] ''a.go'') = Inr ''a.go'' \<and>
   Rel demo_env [] (Join demo_env [] ''b.go'') = Inr ''b.go'' \<and>
   ingestProfiles demo_env [] [] demo_ingested
       [\<lparr>FileName = ''b.go'', Blocks = [\<lparr>StartLine = 2, EndLine = 3, Count = 1\<rparr>]\<rparr>,
        \<lparr>FileName = ''a.go'', Blocks = [\<lparr>StartLine = 1, EndLine = 1, Count = 4\<rparr>]\<rparr>]
     = ingestProfiles demo_env [] [] demo_ingested
       [\<lparr>FileName = ''a.go'', Blocks = [\<lparr>StartLine = 1, EndLine = 1, Count = 4\<rparr>]\<rparr>,
        \<lparr>FileName = ''b.go'', Blocks = [\<lparr>StartLine = 2, EndLine = 3, Count = 1\<rparr>]\<rparr>]"
proof -
  let ?pa = "\<lparr>FileName = ''a.go'', Blocks = [\<lparr>StartLine = 1, EndLine = 1, Count = 4\<rparr>]\<rparr>"
  let ?pb = "\<lparr>FileName = ''b.go'', Blocks = [\<lparr>StartLine = 2, EndLine = 3, Count = 1\<rparr>]\<rparr>"
  have r: "Rel demo_env [] (Join demo_env [] ''a.go'') = Inr ''a.go''"
    "Rel demo_env [] (Join demo_env [] ''b.go'') = Inr ''b.go''"
    by (simp_all add: demo_env_def)
  then have ok: "\<forall>p\<in>set [?pa, ?pb]. \<exists>rn. Rel demo_env [] (Join demo_env [] (FileName p)) = Inr rn"
    by simp
  have mp: "mset [?pb, ?pa] = mset [?pa, ?pb]" by simp
  have m: "mset [''e.out'', ''c.out''] = mset [''c.out'', ''e.out'']" by simp
  have o: "rangeOrder (Results demo_both) ((\<lambda>m. [''a.go'', ''gone.go'', ''empty.go'']) (Results demo_both))"
    "rangeOrder (Results demo_both) ((\<lambda>m. [''empty.go'', ''gone.go'', ''a.go'']) (Results demo_both))"
    using demo_rangeOrder_both by simp_all
  note t = ingestion_order_irrelevant [OF m demo_ingestAll_both o, of 7]
  from t have "ingestAll demo_env \<lparr>Now = 0, Results = Map.empty\<rparr> [] [] [''e.out'', ''c.out''] = Some demo_both"
    using demo_ingestAll_both by simp
  moreover from t have "collectCoverageContext demo_env 7 (\<lambda>m. [''empty.go'', ''gone.go'', ''a.go'']) [] [] [''e.out'', ''c.out'']
     = collectCoverageContext demo_env 7 (\<lambda>m. [''a.go'', ''gone.go'', ''empty.go'']) [] [] [''c.out'', ''e.out'']"
    by simp
  moreover from t have "collectCoverageContext demo_env 7 (\<lambda>m. [''a.go'', ''gone.go'', ''empty.go'']) [] [] [''c.out'', ''e.out''] \<noteq> None"
    by simp
  moreover from t mp ok have "ingestProfiles demo_env [] [] demo_ingested [?pb, ?pa]
      = ingestProfiles demo_env [] [] demo_ingested [?pa, ?pb]"
    by blast
  ultimately show ?thesis using m demo_ingestAll_both demo_rangeOrder_both r by blast
qed

section \<open>A file that cannot be read\<close>

lemma classifyOne_failed:
  assumes "Open w (Join w projRoot f) = Inl err \<or>
           (\<exists>file n. Open w (Join w projRoot f) = Inr file \<and> lineCounter file = (n, Some err))"
  shows "classifyOne w projRoot f r = None"
  using assms by (auto simp: classifyOne_def)

text \<open>
  C7. When \<^verbatim>\<open>os.Open\<close> or \<^verbatim>\<open>lineCounter\<close> fails for the path \<open>f\<close>,
  \<^verbatim>\<open>buildFileCoverage\<close> deletes the key \<open>f\<close> and changes nothing else, so after the
  range over the map \<open>f\<close> has no result at all, and every other path \<open>g\<close> has the
  result that \<^verbatim>\<open>buildFileCoverage\<close> gives it on its own.
\<close>

theorem failed_read_removes_only_that_entry:
  assumes "rangeOrder (Results ctx) ks" and "Results ctx f = Some r"
    and "Open w (Join w projRoot f) = Inl err \<or>
         (\<exists>file n. Open w (Join w projRoot f) = Inr file \<and> lineCounter file = (n, Some err))"
  shows "Results (buildFileCoverage w ctx projRoot f r) = (Results ctx)(f := None) \<and>
         Results (buildAll w ctx projRoot ks) f = None \<and>
         (\<forall>g rg. g \<noteq> f \<and> Results ctx g = Some rg \<longrightarrow>
            Results (buildAll w ctx projRoot ks) g
              = Results (buildFileCoverage w ctx projRoot g rg) g)"
proof -
  have n: "classifyOne w projRoot f r = None"
    using assms(3) by (rule classifyOne_failed)
  then have "Results (buildFileCoverage w ctx projRoot f r) = (Results ctx)(f := None)"
    by (simp add: buildFileCoverage_Results)
  moreover have "Results (buildAll w ctx projRoot ks) f = None"
    by (simp add: buildAll_rangeOrder [OF assms(1)] assms(2) n)
  moreover have "Results (buildAll w ctx projRoot ks) g
              = Results (buildFileCoverage w ctx projRoot g rg) g"
    if "Results ctx g = Some rg" for g rg
    by (simp add: buildAll_rangeOrder [OF assms(1)] that buildFileCoverage_Results)
  ultimately show ?thesis by blast
qed

lemma demo_Open_gone: "Open demo_env (Join demo_env [] ''gone.go'') = Inl (Failure ''open'')"
  by (simp add: demo_env_def)

theorem failed_read_removes_only_that_entry_witness:
  "rangeOrder (Results demo_ingested) [''a.go'', ''gone.go''] \<and>
   Results demo_ingested ''gone.go''
     = Some \<lparr>filename = ''gone.go'', lines = 0, counts = [1 \<mapsto> 1],
             Hits = [], Misses = [], Ignored = []\<rparr> \<and>
   Open demo_env (Join demo_env [] ''gone.go'') = Inl (Failure ''open'') \<and>
   Results (buildAll demo_env demo_ingested [] [''a.go'', ''gone.go'']) ''gone.go'' = None \<and>
   ''a.go'' \<noteq> ''gone.go'' \<and> Results demo_ingested ''a.go'' = Some demo_tally \<and>
   Results (buildAll demo_env demo_ingested [] [''a.go'', ''gone.go'']) ''a.go'' = Some demo_result"
proof -
  let ?rg = "\<lparr>filename = ''gone.go'', lines = 0, counts = [1 \<mapsto> (1 :: gint)],
             Hits = [], Misses = [], Ignored = []\<rparr>"
  have g: "Results demo_ingested ''gone.go'' = Some ?rg" by (simp add: demo_ingested_def)
  have a: "Results demo_ingested ''a.go'' = Some demo_tally" by (simp add: demo_ingested_def)
  have f: "Open demo_env (Join demo_env [] ''gone.go'') = Inl (Failure ''open'') \<or>
         (\<exists>file n. Open demo_env (Join demo_env [] ''gone.go'') = Inr file \<and>
            lineCounter file = (n, Some (Failure ''open'')))"
    using demo_Open_gone by simp
  note t = failed_read_removes_only_that_entry [OF demo_rangeOrder g f]
  from t have "Results (buildAll demo_env demo_ingested [] [''a.go'', ''gone.go'']) ''gone.go'' = None"
    by blast
  moreover from t a have "Results (buildAll demo_env demo_ingested [] [''a.go'', ''gone.go'']) ''a.go''
      = Results (buildFileCoverage demo_env demo_ingested [] ''a.go'' demo_tally) ''a.go''"
    by simp
  ultimately show ?thesis
    using demo_rangeOrder g a demo_Open_gone demo_buildFileCoverage by simp
qed

section \<open>The file name of a result is its key\<close>

lemma filename_classified: "filename (classified r n) = filename r"
  by (simp add: classified_def)

lemma buildFileCoverage_keyed:
  assumes "keyed (Results ctx)" and "Results ctx f = Some r"
  shows "keyed (Results (buildFileCoverage w ctx projRoot f r))"
proof -
  have "filename r' = f" if "classifyOne w projRoot f r = Some r'" for r'
    using classifyOne_Some [OF that] assms by (auto simp: keyed_def filename_classified)
  then show ?thesis
    using assms(1) by (auto simp: keyed_def buildFileCoverage_Results)
qed

lemma buildAll_keyed: "keyed (Results ctx) \<Longrightarrow> keyed (Results (buildAll w ctx projRoot ks))"
  by (induction ks arbitrary: ctx) (auto simp: buildFileCoverage_keyed split: option.splits)

text \<open>
  C9. If every result of a map has its key as its \<open>filename\<close> (as in the empty map
  that \<^verbatim>\<open>collectCoverageContext\<close> starts from), then so has every result after the
  profile files \<open>fps\<close> are ingested, and so has every result that is left
  after \<^verbatim>\<open>buildFileCoverage\<close> has been run over any keys \<open>ks\<close>.
\<close>

theorem filename_is_map_key:
  assumes "\<forall>rn r. Results ctx rn = Some r \<longrightarrow> filename r = rn"
    and "ingestAll w ctx coverageRoot projRoot fps = Some ctx'"
  shows "(\<forall>rn r. Results ctx' rn = Some r \<longrightarrow> filename r = rn) \<and>
         (\<forall>ks rn r. Results (buildAll w ctx' projRoot ks) rn = Some r \<longrightarrow> filename r = rn)"
proof -
  have "keyed (Results ctx)" using assms(1) by (simp add: keyed_def)
  then have k: "keyed (Results ctx')" using ingestAll_keyed [OF assms(2)] by simp
  then have "keyed (Results (buildAll w ctx' projRoot ks))" for ks
    by (rule buildAll_keyed)
  with k show ?thesis unfolding keyed_def by blast
qed

lemma demo_ingest_more:
  "ingestAll demo_env demo_ingested [] [] [''e.out''] = Some demo_both"
  by (simp add: ingestCoverageFile_def demo_env_def demo_both_def demo_ingested_def demo_tally_def
      newResult_def addLines.simps word_sle_eq Let_def)

theorem filename_is_map_key_witness:
  "dom (Results demo_ingested) = {''a.go'', ''gone.go''} \<and>
   filename (the (Results demo_ingested ''a.go'')) = ''a.go'' \<and>
   filename (the (Results demo_ingested ''gone.go'')) = ''gone.go'' \<and>
   ingestAll demo_env demo_ingested [] [] [''e.out''] = Some demo_both \<and>
   Results demo_both ''empty.go''
     = Some \<lparr>filename = ''empty.go'', lines = 0, counts = [1 \<mapsto> 1],
             Hits = [], Misses = [], Ignored = []\<rparr> \<and>
   filename \<lparr>filename = ''empty.go'', lines = 0, counts = [1 \<mapsto> (1 :: gint)],
             Hits = [], Misses = [], Ignored = []\<rparr> = ''empty.go''"
proof -
  have d: "dom (Results demo_ingested) = {''a.go'', ''gone.go''}"
    by (auto simp: demo_ingested_def)
  have fa: "filename (the (Results demo_ingested ''a.go'')) = ''a.go''"
    and fg: "filename (the (Results demo_ingested ''gone.go'')) = ''gone.go''"
    by (simp_all add: demo_ingested_def demo_tally_def)
  have h: "\<forall>rn r. Results demo_ingested rn = Some r \<longrightarrow> filename r = rn"
  proof (intro allI impI)
    fix rn r assume s: "Results demo_ingested rn = Some r"
    then have "rn \<in> dom (Results demo_ingested)" by blast
    with d have "rn = ''a.go'' \<or> rn = ''gone.go''" by blast
    with s fa fg show "filename r = rn" by auto
  qed
  have e: "Results demo_both ''empty.go''
     = Some \<lparr>filename = ''empty.go'', lines = 0, counts = [1 \<mapsto> 1],
             Hits = [], Misses = [], Ignored = []\<rparr>"
    by (simp add: demo_both_def)
  from filename_is_map_key [OF h demo_ingest_more] e
  have "filename \<lparr>filename = ''empty.go'', lines = 0, counts = [1 \<mapsto> (1 :: gint)],
             Hits = [], Misses = [], Ignored = []\<rparr> = ''empty.go''"
    by blast
  with d fa fg demo_ingest_more e show ?thesis by blast
qed

section \<open>The miss fraction\<close>

lemma MissFraction_Finite:
  assumes "Hits r \<noteq> [] \<or> Misses r \<noteq> []"
  shows "\<exists>q. MissFraction r = Finite q \<and> 0 \<le> q \<and> q \<le> 1 \<and>
           q = of_nat (length (Misses r)) / of_nat (length (Hits r) + length (Misses r))"
proof -
  have "0 < length (Hits r) + length (Misses r)" using assms by auto
  then have pos: "(0 :: rat) < of_nat (length (Hits r) + length (Misses r))"
    by (simp only: of_nat_0_less_iff)
  have le: "(of_nat (length (Misses r)) :: rat) \<le> of_nat (length (Hits r) + length (Misses r))"
    by simp
  have "MissFraction r = Finite (of_nat (length (Misses r)) / of_nat (length (Hits r) + length (Misses r)))"
    using pos by (simp add: MissFraction_def HitCount_def MissCount_def float64_of_def Let_def)
  moreover have "(0 :: rat) \<le> of_nat (length (Misses r)) / of_nat (length (Hits r) + length (Misses r))"
    by (intro divide_nonneg_nonneg) simp_all
  moreover have "(of_nat (length (Misses r)) :: rat) / of_nat (length (Hits r) + length (Misses r)) \<le> 1"
    using pos le by (simp add: divide_le_eq_1)
  ultimately show ?thesis by blast
qed

lemma MissFraction_NaN:
  "Hits r = [] \<Longrightarrow> Misses r = [] \<Longrightarrow> MissFraction r = NaN"
  by (simp add: MissFraction_def HitCount_def MissCount_def float64_of_def)

lemma demo_collect_empty:
  "collectCoverageContext demo_env 7 (\<lambda>m. [''empty.go'']) [] [] [''e.out'']
     = Some \<lparr>Now = 7, Results = [''empty.go'' \<mapsto> demo_empty]\<rparr>"
  by (simp add: collectCoverageContext_def ingestCoverageFile_def demo_env_def newResult_def
      addLines.simps word_sle_eq Let_def buildFileCoverage_def lineCounter_def bytesCount_def
      classifyLines.simps word_sless_alt demo_empty_def)

text \<open>
  C4. The profile \<^verbatim>\<open>e.out\<close> names \<^verbatim>\<open>empty.go\<close>, a file without a line. Its result has
  no hit and no miss, and \<^verbatim>\<open>MissFraction\<close> divides 0 by 0: the value is not-a-number,
  not 0.
\<close>

theorem MissFraction_without_hits_and_misses:
  "collectCoverageContext demo_env 7 (\<lambda>m. [''empty.go'']) [] [] [''e.out'']
     = Some \<lparr>Now = 7, Results = [''empty.go'' \<mapsto> demo_empty]\<rparr> \<and>
   HitCount demo_empty = 0 \<and> MissCount demo_empty = 0 \<and>
   MissFraction demo_empty = NaN \<and> MissFraction demo_empty \<noteq> Finite 0"
  using demo_collect_empty
  by (simp add: MissFraction_def HitCount_def MissCount_def float64_of_def demo_empty_def)

section \<open>The rows of the hitlist\<close>

lemma pairResults_zip:
  "length ps = length rs \<Longrightarrow> pairResults rs ps = Inr (zip rs ps)"
  by (induction rs ps rule: pairResults.induct) auto

lemma printRows_within:
  assumes "0 \<le> i" and "limit \<le> int (length rps)"
  shows "printRows rps i limit = Inr (map hitlistRow (drop (nat i) (take (nat limit) rps)))"
  using assms
proof (induction rps i limit rule: printRows.induct)
  case (1 rps i limit)
  show ?case
  proof (cases "i < limit")
    case True
    with "1.prems" have in_range: "0 \<le> i \<and> nat i < length rps" by auto
    have ih: "printRows rps (i + 1) limit
        = Inr (map hitlistRow (drop (nat (i + 1)) (take (nat limit) rps)))"
      using "1.IH" [OF True in_range] "1.prems" by simp
    have lt: "nat i < length (take (nat limit) rps)" using True "1.prems" by auto
    have "drop (nat i) (take (nat limit) rps)
        = take (nat limit) rps ! nat i # drop (Suc (nat i)) (take (nat limit) rps)"
      using Cons_nth_drop_Suc [OF lt] by simp
    moreover have "take (nat limit) rps ! nat i = rps ! nat i" using True "1.prems" by auto
    moreover have "nat (i + 1) = Suc (nat i)" using "1.prems" by simp
    ultimately show ?thesis
      using True in_range ih by (subst printRows.simps) simp
  next
    case False
    then have "drop (nat i) (take (nat limit) rps) = []" by auto
    with False show ?thesis by (subst printRows.simps) simp
  qed
qed

lemma printRows_beyond:
  assumes "0 \<le> i" and "int (length rps) < limit" and "i \<le> int (length rps)"
  shows "printRows rps i limit = Inl IndexOutOfRange"
  using assms
proof (induction rps i limit rule: printRows.induct)
  case (1 rps i limit)
  show ?case
  proof (cases "nat i < length rps")
    case True
    with "1.prems" have lt: "i < limit" and in_range: "0 \<le> i \<and> nat i < length rps" by auto
    have "printRows rps (i + 1) limit = Inl IndexOutOfRange"
      using "1.IH" [OF lt in_range] "1.prems" True by simp
    then show ?thesis using lt in_range by (subst printRows.simps) simp
  next
    case False
    with "1.prems" show ?thesis by (subst printRows.simps) simp
  qed
qed

text \<open>
  What \<^verbatim>\<open>printHitlist\<close> prints after its sorts: with no limit (0) or a limit up to the
  number of results, the first \<open>limit\<close> rows, row \<open>i\<close> pairing \<open>rs ! i\<close> with
  \<open>ps ! i\<close>; with a limit above the number of results, nothing, since \<^verbatim>\<open>rps[i]\<close>
  panics.
\<close>

lemma hitlistRows_within:
  assumes "length ps = length rs" and "0 \<le> limit" and "limit \<le> int (length rs)"
  shows "hitlistRows rs ps limit
     = Inr (map hitlistRow (take (if limit = 0 then length rs else nat limit) (zip rs ps)))"
  using assms by (simp add: hitlistRows_def pairResults_zip printRows_within Let_def)

lemma hitlistRows_beyond:
  assumes "length ps = length rs" and "int (length rs) < limit"
  shows "hitlistRows rs ps limit = Inl IndexOutOfRange"
  using assms by (auto simp: hitlistRows_def pairResults_zip printRows_beyond Let_def)

text \<open>
  C6. One result and \<^verbatim>\<open>--limit=2\<close>: the loop reads \<^verbatim>\<open>rps[1]\<close> of a slice of length 1
  and the program panics instead of printing its one row.
\<close>

theorem hitlist_limit_above_rows_panics:
  "hitlistRows [demo_result] [demo_result] 2 = Inl IndexOutOfRange \<and>
   hitlistRows [demo_result] [demo_result] 1
     = Inr [(''a.go'', 1, ''a.go'', Finite (100 / 3))]"
proof -
  have "hitlistRows [demo_result] [demo_result] 2 = Inl IndexOutOfRange"
    by (rule hitlistRows_beyond) simp_all
  moreover have "hitlistRows [demo_result] [demo_result] 1
     = Inr [(''a.go'', 1, ''a.go'', Finite (100 / 3))]"
    by (simp add: hitlistRows_within hitlistRow_def MissFraction_def MissCount_def HitCount_def
        float64_of_def demo_result_def)
  ultimately show ?thesis by simp
qed

section \<open>The two orderings of the hitlist\<close>

lemma set_rangeValues:
  assumes "rangeOrder m ks"
  shows "set (rangeValues m ks) = ran m"
proof -
  have "set (List.map_filter m ks) = {v. \<exists>k\<in>set ks. m k = Some v}"
    by (induction ks) (auto simp: List.map_filter_simps split: option.splits)
  also have "\<dots> = ran m"
    using assms by (auto simp: rangeOrder_def ran_def)
  finally show ?thesis by (simp add: rangeValues_def)
qed

lemma transitive_ordering_byLines:
  "transitive_ordering (Reverse resultsByLines_Less) xs"
  by (auto simp: transitive_ordering_def Reverse_def resultsByLines_Less_def)

lemma transitive_ordering_byPercentage:
  assumes "\<forall>r\<in>set xs. Hits r \<noteq> [] \<or> Misses r \<noteq> []"
  shows "transitive_ordering (Reverse resultsByPercentage_Less) xs"
proof -
  have fin: "\<exists>q. MissFraction r = Finite q" if "r \<in> set xs" for r
    using MissFraction_Finite [of r] assms that by blast
  show ?thesis
    unfolding transitive_ordering_def Reverse_def resultsByPercentage_Less_def
  proof (intro conjI ballI)
    fix a assume "a \<in> set xs"
    from fin [OF this] show "\<not> fless (MissFraction a) (MissFraction a)" by auto
  next
    fix a b c assume "a \<in> set xs" "b \<in> set xs" "c \<in> set xs"
    from fin [OF this(1)] fin [OF this(2)] fin [OF this(3)]
    obtain x y z where "MissFraction a = Finite x" "MissFraction b = Finite y" "MissFraction c = Finite z"
      by blast
    then show "fless (MissFraction b) (MissFraction a) \<and> fless (MissFraction c) (MissFraction b)
        \<longrightarrow> fless (MissFraction c) (MissFraction a)"
      and "\<not> fless (MissFraction b) (MissFraction a) \<and> \<not> fless (MissFraction c) (MissFraction b)
        \<longrightarrow> \<not> fless (MissFraction c) (MissFraction a)"
      by auto
  qed
qed

text \<open>
  C5, as the code has it. Whatever order the two map ranges take and whatever
  \<^verbatim>\<open>sort.Sort\<close> does with equal keys: both sorted slices hold exactly the results of the
  map, the first is non-increasing in \<^verbatim>\<open>MissCount\<close>, and the second is non-increasing
  in \<^verbatim>\<open>MissFraction\<close> when every result has a hit or a miss.
\<close>

theorem hitlist_orderings_non_increasing:
  assumes "printHitlist ctx limit ks1 ks2 rs ps out"
  shows "mset rs = mset (rangeValues (Results ctx) ks1) \<and>
         mset ps = mset (rangeValues (Results ctx) ks2) \<and>
         set rs = ran (Results ctx) \<and> set ps = ran (Results ctx) \<and>
         sorted_wrt (\<lambda>a b. MissCount b \<le> MissCount a) rs \<and>
         ((\<forall>r\<in>ran (Results ctx). Hits r \<noteq> [] \<or> Misses r \<noteq> []) \<longrightarrow>
            sorted_wrt (\<lambda>a b. \<exists>x y. MissFraction a = Finite x \<and> MissFraction b = Finite y \<and> y \<le> x) ps)"
proof -
  let ?xs1 = "rangeValues (Results ctx) ks1" and ?xs2 = "rangeValues (Results ctx) ks2"
  from assms have o1: "rangeOrder (Results ctx) ks1" and o2: "rangeOrder (Results ctx) ks2"
    and s1: "Sort (Reverse resultsByLines_Less) ?xs1 rs"
    and s2: "Sort (Reverse resultsByPercentage_Less) ?xs2 ps"
    by (simp_all add: printHitlist_def)
  from s1 s2 have m: "mset rs = mset ?xs1" "mset ps = mset ?xs2" by (simp_all add: Sort_def)
  have sets: "set rs = ran (Results ctx)" "set ps = ran (Results ctx)"
    using m [THEN mset_eq_setD] set_rangeValues [OF o1] set_rangeValues [OF o2] by simp_all
  from s1 transitive_ordering_byLines
  have "sorted_wrt (\<lambda>a b. \<not> Reverse resultsByLines_Less b a) rs" by (simp add: Sort_def)
  then have l: "sorted_wrt (\<lambda>a b. MissCount b \<le> MissCount a) rs"
    by (rule sorted_wrt_mono_rel [rotated]) (simp add: Reverse_def resultsByLines_Less_def)
  have p: "sorted_wrt (\<lambda>a b. \<exists>x y. MissFraction a = Finite x \<and> MissFraction b = Finite y \<and> y \<le> x) ps"
    if ok: "\<forall>r\<in>ran (Results ctx). Hits r \<noteq> [] \<or> Misses r \<noteq> []"
  proof -
    have "\<forall>r\<in>set ?xs2. Hits r \<noteq> [] \<or> Misses r \<noteq> []"
      using ok set_rangeValues [OF o2] by simp
    from s2 transitive_ordering_byPercentage [OF this]
    have srt: "sorted_wrt (\<lambda>a b. \<not> Reverse resultsByPercentage_Less b a) ps" by (simp add: Sort_def)
    show ?thesis
    proof (rule sorted_wrt_mono_rel [OF _ srt])
      fix a b assume "a \<in> set ps" "b \<in> set ps"
        and n: "\<not> Reverse resultsByPercentage_Less b a"
      with sets(2) ok have "Hits a \<noteq> [] \<or> Misses a \<noteq> []" "Hits b \<noteq> [] \<or> Misses b \<noteq> []"
        by auto
      from MissFraction_Finite [OF this(1)] MissFraction_Finite [OF this(2)]
      obtain x y where "MissFraction a = Finite x" "MissFraction b = Finite y" by blast
      with n show "\<exists>x y. MissFraction a = Finite x \<and> MissFraction b = Finite y \<and> y \<le> x"
        by (simp add: Reverse_def resultsByPercentage_Less_def)
    qed
  qed
  from m sets l p show ?thesis by blast
qed

lemma demo_fractions:
  "MissCount demo_a1 = 1" "MissCount demo_c = 2"
  "MissFraction demo_a1 = Finite 1" "MissFraction demo_c = Finite (1 / 3)"
  by (simp_all add: MissFraction_def MissCount_def HitCount_def float64_of_def demo_a1_def demo_c_def)

lemma demo_hitlist_run:
  "printHitlist demo_hitlist_ctx 0 [''a.go'', ''c.go''] [''c.go'', ''a.go'']
     [demo_c, demo_a1] [demo_a1, demo_c]
     (Inr [(''c.go'', 2, ''a.go'', Finite 100), (''a.go'', 1, ''c.go'', Finite (100 / 3))])"
proof -
  have "rangeOrder (Results demo_hitlist_ctx) [''a.go'', ''c.go'']"
    "rangeOrder (Results demo_hitlist_ctx) [''c.go'', ''a.go'']"
    by (auto simp: rangeOrder_def demo_hitlist_ctx_def)
  moreover have "rangeValues (Results demo_hitlist_ctx) [''a.go'', ''c.go''] = [demo_a1, demo_c]"
    "rangeValues (Results demo_hitlist_ctx) [''c.go'', ''a.go''] = [demo_c, demo_a1]"
    by (simp_all add: rangeValues_def List.map_filter_def demo_hitlist_ctx_def)
  moreover have "Sort (Reverse resultsByLines_Less) [demo_a1, demo_c] [demo_c, demo_a1]"
    by (simp add: Sort_def Reverse_def resultsByLines_Less_def demo_fractions)
  moreover have "Sort (Reverse resultsByPercentage_Less) [demo_c, demo_a1] [demo_a1, demo_c]"
    by (simp add: Sort_def Reverse_def resultsByPercentage_Less_def demo_fractions)
  moreover have "hitlistRows [demo_c, demo_a1] [demo_a1, demo_c] 0
      = Inr [(''c.go'', 2, ''a.go'', Finite 100), (''a.go'', 1, ''c.go'', Finite (100 / 3))]"
    by (simp add: hitlistRows_within hitlistRow_def demo_fractions) (simp add: demo_a1_def demo_c_def)
  ultimately show ?thesis unfolding printHitlist_def by simp
qed

theorem hitlist_orderings_non_increasing_witness:
  "printHitlist demo_hitlist_ctx 0 [''a.go'', ''c.go''] [''c.go'', ''a.go'']
     [demo_c, demo_a1] [demo_a1, demo_c]
     (Inr [(''c.go'', 2, ''a.go'', Finite 100), (''a.go'', 1, ''c.go'', Finite (100 / 3))]) \<and>
   ran (Results demo_hitlist_ctx) = {demo_a1, demo_c} \<and>
   Misses demo_a1 \<noteq> [] \<and> Misses demo_c \<noteq> [] \<and>
   sorted_wrt (\<lambda>a b. MissCount b \<le> MissCount a) [demo_c, demo_a1] \<and>
   sorted_wrt (\<lambda>a b. \<exists>x y. MissFraction a = Finite x \<and> MissFraction b = Finite y \<and> y \<le> x)
     [demo_a1, demo_c]"
proof -
  have ne: "demo_a1 \<noteq> demo_c" by (simp add: demo_a1_def demo_c_def)
  have r: "ran (Results demo_hitlist_ctx) = {demo_a1, demo_c}"
    using ne by (auto simp: demo_hitlist_ctx_def ran_map_upd)
  have h: "Misses demo_a1 \<noteq> []" "Misses demo_c \<noteq> []"
    by (simp_all add: demo_a1_def demo_c_def)
  then have all: "\<forall>r\<in>ran (Results demo_hitlist_ctx). Hits r \<noteq> [] \<or> Misses r \<noteq> []"
    unfolding r by simp
  note t = hitlist_orderings_non_increasing [OF demo_hitlist_run]
  note tl = t [THEN conjunct2, THEN conjunct2, THEN conjunct2, THEN conjunct2]
  have l: "sorted_wrt (\<lambda>a b. MissCount b \<le> MissCount a) [demo_c, demo_a1]"
    by (rule tl [THEN conjunct1])
  have p: "sorted_wrt (\<lambda>a b. \<exists>x y. MissFraction a = Finite x \<and> MissFraction b = Finite y \<and> y \<le> x)
     [demo_a1, demo_c]"
    by (rule tl [THEN conjunct2, THEN mp, OF all])
  show ?thesis
    by (intro conjI demo_hitlist_run r h l p)
qed

text \<open>
  C5 as the specification states it fails: with two results of equal keys, the same map
  and the same limit have two runs that print different tables (the two map ranges may
  visit the keys in either order), and \<^verbatim>\<open>sort.Sort\<close> may hand back two results of
  equal keys in the other order.
\<close>

theorem hitlist_equal_keys_counterexample:
  "printHitlist demo_tie_ctx 0 [''x.go'', ''y.go''] [''x.go'', ''y.go''] [demo_x, demo_y] [demo_x, demo_y]
     (Inr [(''x.go'', 1, ''x.go'', Finite 50), (''y.go'', 1, ''y.go'', Finite 50)]) \<and>
   printHitlist demo_tie_ctx 0 [''y.go'', ''x.go''] [''y.go'', ''x.go''] [demo_y, demo_x] [demo_y, demo_x]
     (Inr [(''y.go'', 1, ''y.go'', Finite 50), (''x.go'', 1, ''x.go'', Finite 50)]) \<and>
   [(''x.go'', 1 :: nat, ''x.go'', Finite 50), (''y.go'', 1, ''y.go'', Finite 50)]
     \<noteq> [(''y.go'', 1, ''y.go'', Finite 50), (''x.go'', 1, ''x.go'', Finite 50)] \<and>
   MissCount demo_x = MissCount demo_y \<and> MissFraction demo_x = MissFraction demo_y \<and>
   Sort (Reverse resultsByLines_Less) [demo_x, demo_y] [demo_y, demo_x] \<and>
   Sort (Reverse resultsByPercentage_Less) [demo_x, demo_y] [demo_y, demo_x]"
proof -
  have k: "MissCount demo_x = 1" "MissCount demo_y = 1"
    "MissFraction demo_x = Finite (1 / 2)" "MissFraction demo_y = Finite (1 / 2)"
    by (simp_all add: MissFraction_def MissCount_def HitCount_def float64_of_def demo_x_def demo_y_def)
  have o: "rangeOrder (Results demo_tie_ctx) [''x.go'', ''y.go'']"
    "rangeOrder (Results demo_tie_ctx) [''y.go'', ''x.go'']"
    by (auto simp: rangeOrder_def demo_tie_ctx_def)
  have v: "rangeValues (Results demo_tie_ctx) [''x.go'', ''y.go''] = [demo_x, demo_y]"
    "rangeValues (Results demo_tie_ctx) [''y.go'', ''x.go''] = [demo_y, demo_x]"
    by (simp_all add: rangeValues_def List.map_filter_def demo_tie_ctx_def)
  have s: "Sort (Reverse resultsByLines_Less) [demo_x, demo_y] [demo_x, demo_y]"
    "Sort (Reverse resultsByLines_Less) [demo_y, demo_x] [demo_y, demo_x]"
    "Sort (Reverse resultsByLines_Less) [demo_x, demo_y] [demo_y, demo_x]"
    "Sort (Reverse resultsByPercentage_Less) [demo_x, demo_y] [demo_x, demo_y]"
    "Sort (Reverse resultsByPercentage_Less) [demo_y, demo_x] [demo_y, demo_x]"
    "Sort (Reverse resultsByPercentage_Less) [demo_x, demo_y] [demo_y, demo_x]"
    by (simp_all add: Sort_def Reverse_def resultsByLines_Less_def resultsByPercentage_Less_def k)
  have r: "hitlistRows [demo_x, demo_y] [demo_x, demo_y] 0
      = Inr [(''x.go'', 1, ''x.go'', Finite 50), (''y.go'', 1, ''y.go'', Finite 50)]"
    "hitlistRows [demo_y, demo_x] [demo_y, demo_x] 0
      = Inr [(''y.go'', 1, ''y.go'', Finite 50), (''x.go'', 1, ''x.go'', Finite 50)]"
    by (simp_all add: hitlistRows_within hitlistRow_def k) (simp_all add: demo_x_def demo_y_def)
  have p1: "printHitlist demo_tie_ctx 0 [''x.go'', ''y.go''] [''x.go'', ''y.go''] [demo_x, demo_y] [demo_x, demo_y]
     (Inr [(''x.go'', 1, ''x.go'', Finite 50), (''y.go'', 1, ''y.go'', Finite 50)])"
    unfolding printHitlist_def v r using o s by simp
  have p2: "printHitlist demo_tie_ctx 0 [''y.go'', ''x.go''] [''y.go'', ''x.go''] [demo_y, demo_x] [demo_y, demo_x]
     (Inr [(''y.go'', 1, ''y.go'', Finite 50), (''x.go'', 1, ''x.go'', Finite 50)])"
    unfolding printHitlist_def v r using o s by simp
  have ne: "[(''x.go'', 1 :: nat, ''x.go'', Finite 50), (''y.go'', 1, ''y.go'', Finite 50)]
     \<noteq> [(''y.go'', 1, ''y.go'', Finite 50), (''x.go'', 1, ''x.go'', Finite 50)]"
    by simp
  from p1 p2 ne k s(3,6) show ?thesis by simp
qed

section \<open>A count that has wrapped\<close>

lemma MaxInt_succ: "MaxInt + 1 = (0x8000000000000000 :: gint)" "sint (MaxInt + 1) = - (2 ^ 63)"
  by (simp_all add: MaxInt_def)

lemma demo_wrap_collect:
  "collectCoverageContext demo_wrap_env 7 (\<lambda>m. [''a.go'']) [] [] [''w.out'']
     = Some \<lparr>Now = 7, Results = [''a.go'' \<mapsto> demo_wrap_result]\<rparr>"
  by (simp add: collectCoverageContext_def ingestCoverageFile_def demo_wrap_env_def demo_env_def
      newResult_def addLines.simps word_sle_eq Let_def buildFileCoverage_def lineCounter_def
      bytesCount_def classifyLines.simps classifyLine_def word_sless_alt demo_wrap_result_def
      MaxInt_def)

text \<open>
  C2 as the specification states it fails: \<^verbatim>\<open>a.go\<close> has four lines, and the profile
  has two blocks on line 1, with the counts \<open>MaxInt\<close> and 1. Their sum wraps to the
  least \<^verbatim>\<open>int\<close>, a stored count that is not 0, and line 1 is filed under \<open>Misses\<close>.
\<close>

theorem classification_wrapped_count_counterexample:
  "collectCoverageContext demo_wrap_env 7 (\<lambda>m. [''a.go'']) [] [] [''w.out'']
     = Some \<lparr>Now = 7, Results = [''a.go'' \<mapsto> demo_wrap_result]\<rparr> \<and>
   lines demo_wrap_result = 4 \<and> (0 :: gint) \<le>s 1 \<and> (1 :: gint) <s 4 \<and>
   1 \<in> set (Misses demo_wrap_result) \<and>
   counts demo_wrap_result 1 = Some (MaxInt + 1) \<and>
   sint (MaxInt + 1) = - (2 ^ 63) \<and>
   counts demo_wrap_result 1 \<noteq> Some 0"
proof -
  have "(0 :: gint) \<le>s 1" "(1 :: gint) <s 4"
    by (simp_all add: word_sle_eq word_sless_alt)
  moreover have "lines demo_wrap_result = 4" "1 \<in> set (Misses demo_wrap_result)"
    "counts demo_wrap_result 1 = Some (MaxInt + 1)"
    by (simp_all add: demo_wrap_result_def)
  moreover have "counts demo_wrap_result 1 \<noteq> Some 0"
    by (simp add: demo_wrap_result_def MaxInt_def)
  ultimately show ?thesis
    using demo_wrap_collect MaxInt_succ(2) by simp
qed

end
